(* ===== verification/Prelude.thy ===== *)
theory Prelude
  imports Complex_Main "HOL-Library.Word"
begin

text \<open>
  Shared vocabulary of the development: the machine integers of the source, C strings,
  decimal digits, and the generic facts about lists, logarithms and rounding that the
  component theories use.
\<close>

section \<open>Machine types\<close>

type_synonym int16 = "16 word"    \<comment> \<open>\<open>short\<close>: ports\<close>
type_synonym int32 = "32 word"    \<comment> \<open>\<open>int\<close>, \<open>gboolean\<close>, \<open>gint\<close>, \<open>GstState\<close>\<close>
type_synonym uint32 = "32 word"   \<comment> \<open>\<open>unsigned\<close>\<close>
type_synonym int64 = "64 word"    \<comment> \<open>\<open>gint64\<close>\<close>
type_synonym uint64 = "64 word"   \<comment> \<open>\<open>GstClockTime\<close>, \<open>unsigned long long\<close>\<close>

named_theorems std_defs \<open>definitions of the C++ standard library operations\<close>

section \<open>C strings\<close>

abbreviation NUL :: char where
  "NUL \<equiv> CHR 0x00"

text \<open>What a function that takes \<open>const char*\<close> sees of a \<open>std::string\<close>: the bytes up to the
  first NUL.\<close>

definition c_str :: "string \<Rightarrow> string" where
  "c_str s = takeWhile (\<lambda>c. c \<noteq> NUL) s"

lemma c_str_id [simp]: "NUL \<notin> set s \<Longrightarrow> c_str s = s"
  by (auto simp: c_str_def takeWhile_eq_all_conv)

lemma c_str_no_nul [simp]: "NUL \<notin> set (c_str s)"
  using set_takeWhileD by (fastforce simp: c_str_def)

lemma c_str_append: "NUL \<notin> set s \<Longrightarrow> c_str (s @ t) = s @ c_str t"
  by (induction s) (auto simp: c_str_def)

section \<open>Lists\<close>

text \<open>Scanning a prefix whose elements satisfy \<open>P\<close>, followed by something that does not.\<close>

lemma takeWhile_append_stop:
  "\<forall>x \<in> set xs. P x \<Longrightarrow> ys = [] \<or> \<not> P (hd ys) \<Longrightarrow> takeWhile P (xs @ ys) = xs"
  by (induction xs) (cases ys; auto)+

lemma dropWhile_append_stop:
  "\<forall>x \<in> set xs. P x \<Longrightarrow> ys = [] \<or> \<not> P (hd ys) \<Longrightarrow> dropWhile P (xs @ ys) = ys"
  by (induction xs) (cases ys; auto)+

lemma takeWhile_all: "\<forall>x \<in> set xs. P x \<Longrightarrow> takeWhile P xs = xs"
  by (induction xs) auto

lemma dropWhile_all: "\<forall>x \<in> set xs. P x \<Longrightarrow> dropWhile P xs = []"
  by (induction xs) auto

lemmas scan_stop = takeWhile_append_stop dropWhile_append_stop takeWhile_all dropWhile_all

lemma if_pred: "P x \<Longrightarrow> P y \<Longrightarrow> P (if b then x else y)"
  by simp

lemma takeWhile_eq_replicate:
  "takeWhile (\<lambda>c. c = x) xs = replicate (length (takeWhile (\<lambda>c. c = x) xs)) x"
  by (induction xs) auto

end
