(* ===== verification/Doubles.thy ===== *)
theory Doubles
  imports Prelude
begin

text \<open>
  The IEEE-754 binary64 values behind \<open>gdouble\<close> (and, with another precision, the binary32
  values behind \<open>gfloat\<close>): a finite value is a sign and an exact rational magnitude, every
  operation computes exactly and rounds to nearest, ties to even. Comparisons follow IEEE: a NaN
  is unordered and unequal to everything. The sign of a NaN is not modelled.
\<close>

section \<open>Integer logarithm of a rational\<close>

lemma int_div_less_iff:
  fixes n b k :: int
  assumes "0 < b"
  shows "n div b < k \<longleftrightarrow> n < k * b"
proof
  assume "n div b < k"
  then have "n div b + 1 \<le> k" by simp
  then have "(n div b + 1) * b \<le> k * b" using assms by simp
  then have "n div b * b + b \<le> k * b" by (simp add: distrib_right)
  moreover have "n = n div b * b + n mod b" and "n mod b < b" using assms by simp_all
  ultimately show "n < k * b" by linarith
next
  assume "n < k * b"
  moreover have "n = n div b * b + n mod b" and "0 \<le> n mod b" using assms by simp_all
  ultimately have "n div b * b < k * b" by linarith
  then show "n div b < k" using assms by simp
qed

function ndigits :: "int \<Rightarrow> int \<Rightarrow> nat" where
  "ndigits b n = (if n \<le> 0 \<or> b \<le> 1 then 0 else Suc (ndigits b (n div b)))"
  by pat_completeness auto
termination
  by (relation "measure (\<lambda>(b, n). nat n)") (auto simp: int_div_less_self)

declare ndigits.simps [simp del]

lemma ndigits_le_iff: "1 < b \<Longrightarrow> 0 \<le> n \<Longrightarrow> ndigits b n \<le> k \<longleftrightarrow> n < b ^ k"
proof (induction b n arbitrary: k rule: ndigits.induct)
  case (1 b n)
  show ?case
  proof (cases "n = 0")
    case True
    then show ?thesis using 1 by (simp add: ndigits.simps)
  next
    case False
    then have n: "0 < n" using 1 by simp
    show ?thesis
    proof (cases k)
      case 0
      then show ?thesis using n 1(2) by (simp add: ndigits.simps [of b n])
    next
      case (Suc j)
      have "ndigits b (n div b) \<le> j \<longleftrightarrow> n div b < b ^ j"
        using 1 n by (simp add: pos_imp_zdiv_nonneg_iff)
      also have "\<dots> \<longleftrightarrow> n < b ^ j * b"
        using 1(2) by (simp add: int_div_less_iff)
      finally show ?thesis using n 1(2) Suc by (simp add: ndigits.simps [of b n] mult.commute)
    qed
  qed
qed

text \<open>\<open>ilog b r\<close> is the floor of the logarithm of \<open>r\<close> to base \<open>b\<close>, for positive \<open>r\<close>.\<close>

definition ilog :: "int \<Rightarrow> rat \<Rightarrow> int" where
  "ilog b r = (if 1 \<le> r then int (ndigits b \<lfloor>r\<rfloor>) - 1
               else - int (ndigits b (\<lceil>1 / r\<rceil> - 1)))"

lemma ilog_ge1:
  assumes "1 < b" and "1 \<le> r"
  shows "of_int b powi ilog b r \<le> r \<and> r < of_int b powi (ilog b r + 1)"
proof -
  define n where "n = \<lfloor>r\<rfloor>"
  define d where "d = ndigits b n"
  have n: "of_int n \<le> r" "r < of_int n + 1" "0 < n"
    using assms(2) by (simp_all add: n_def) linarith
  have "\<not> d \<le> 0" using n(3) ndigits_le_iff [OF assms(1), of n 0] by (simp add: d_def)
  then obtain j where j: "d = Suc j" by (cases d) auto
  have "b ^ j \<le> n" using ndigits_le_iff [OF assms(1), of n j] j n(3) by (simp add: d_def)
  then have "(of_int b ^ j :: rat) \<le> of_int n"
    by (metis of_int_le_iff of_int_power)
  with n(1) have lo: "of_int b ^ j \<le> r" by linarith
  have "n + 1 \<le> b ^ d" using ndigits_le_iff [OF assms(1), of n d] n(3) by (simp add: d_def)
  then have "(of_int n + 1 :: rat) \<le> of_int b ^ d"
    by (metis of_int_1 of_int_add of_int_le_iff of_int_power)
  with n(2) have hi: "r < of_int b ^ d" by linarith
  have "ilog b r = int j" and "int j + 1 = int d"
    using assms j by (simp_all add: ilog_def d_def n_def)
  then show ?thesis using lo hi by (simp only: power_int_of_nat)
qed

lemma ilog_lt1:
  assumes "1 < b" and "0 < r" and "r < 1"
  shows "of_int b powi ilog b r \<le> r \<and> r < of_int b powi (ilog b r + 1)"
proof -
  define m where "m = \<lceil>1 / r\<rceil> - 1"
  define d where "d = ndigits b m"
  have gt: "1 < 1 / r" using assms by simp
  then have "1 < \<lceil>1 / r\<rceil>" by linarith
  then have m: "of_int m < 1 / r" "1 / r \<le> of_int m + 1" "0 < m"
    by (simp_all add: m_def) linarith+
  have "\<not> d \<le> 0" using m(3) ndigits_le_iff [OF assms(1), of m 0] by (simp add: d_def)
  then obtain j where j: "d = Suc j" by (cases d) auto
  have "b ^ j \<le> m" using ndigits_le_iff [OF assms(1), of m j] j m(3) by (simp add: d_def)
  then have lo: "(of_int b ^ j :: rat) \<le> of_int m"
    by (metis of_int_le_iff of_int_power)
  have "m + 1 \<le> b ^ d" using ndigits_le_iff [OF assms(1), of m d] m(3) by (simp add: d_def)
  then have hi: "(of_int m + 1 :: rat) \<le> of_int b ^ d"
    by (metis of_int_1 of_int_add of_int_le_iff of_int_power)
  have il: "ilog b r = - int d" using assms by (simp add: ilog_def d_def m_def)
  have pos: "(0::rat) < of_int b ^ k" for k using assms(1) by simp
  have "1 / r \<le> of_int b ^ d" using m(2) hi by linarith
  then have "1 / of_int b ^ d \<le> r" using assms(2) pos [of d] by (simp add: field_simps)
  moreover have "of_int b ^ j < 1 / r" using m(1) lo by linarith
  then have "r < 1 / of_int b ^ j" using assms(2) pos [of j] by (simp add: field_simps)
  moreover have "- int d + 1 = - int j" using j by simp
  ultimately show ?thesis by (simp add: il power_int_minus divide_inverse)
qed

lemma ilog_bounds:
  assumes "1 < b" and "0 < r"
  shows "of_int b powi ilog b r \<le> r" and "r < of_int b powi (ilog b r + 1)"
  using assms ilog_ge1 [of b r] ilog_lt1 [of b r] by (cases "1 \<le> r"; simp)+

lemma powi_less_iff:
  "1 < (b::rat) \<Longrightarrow> b powi m < b powi n \<longleftrightarrow> m < n"
  by (metis linorder_less_linear order_less_imp_not_less power_int_strict_increasing)

lemma ilog_eqI:
  assumes "1 < b" and "of_int b powi k \<le> r" and "r < of_int b powi (k + 1)"
  shows "ilog b r = k"
proof -
  have b: "1 < (of_int b :: rat)" using assms(1) by simp
  have "(0::rat) < of_int b powi k" using b by simp
  then have r: "0 < r" using assms(2) by linarith
  have "(of_int b :: rat) powi ilog b r < of_int b powi (k + 1)"
    and "(of_int b :: rat) powi k < of_int b powi (ilog b r + 1)"
    using ilog_bounds [OF assms(1) r] assms(2,3) by linarith+
  then show ?thesis using powi_less_iff [OF b] by fastforce
qed

lemma ilog_mono:
  assumes "1 < b" and "0 < r" and "r \<le> s"
  shows "ilog b r \<le> ilog b s"
proof -
  have b: "1 < (of_int b :: rat)" using assms(1) by simp
  have "(of_int b :: rat) powi ilog b r < of_int b powi (ilog b s + 1)"
    using ilog_bounds [OF assms(1), of r] ilog_bounds [OF assms(1), of s] assms by linarith
  then show ?thesis using powi_less_iff [OF b] by fastforce
qed

section \<open>Rounding to nearest, ties to even\<close>

definition round_half_even :: "rat \<Rightarrow> int" where
  "round_half_even x =
     (let f = \<lfloor>x\<rfloor>; d = x - of_int f in
      if d < 1 / 2 then f else if 1 / 2 < d then f + 1 else if even f then f else f + 1)"

lemma round_half_even_error: "\<bar>of_int (round_half_even x) - x\<bar> \<le> 1 / 2"
proof -
  have "of_int \<lfloor>x\<rfloor> \<le> x" "x < of_int \<lfloor>x\<rfloor> + 1" by linarith+
  then show ?thesis unfolding round_half_even_def Let_def abs_if of_int_add of_int_1
    by (simp split: if_splits; linarith)
qed

lemma round_half_even_of_int [simp]: "round_half_even (of_int n) = n"
  by (simp add: round_half_even_def)

lemma round_half_even_unique:
  assumes "\<bar>of_int n - x\<bar> < 1 / 2"
  shows "round_half_even x = n"
proof -
  have "\<bar>(of_int (round_half_even x) :: rat) - of_int n\<bar> < 1"
    using assms round_half_even_error [of x] by linarith
  then show ?thesis by linarith
qed

lemma round_half_even_mono:
  assumes "x \<le> y"
  shows "round_half_even x \<le> round_half_even y"
proof (rule ccontr)
  assume "\<not> ?thesis"
  then have "(of_int (round_half_even y) :: rat) + 1 \<le> of_int (round_half_even x)" by linarith
  then have "x = y"
    using assms round_half_even_error [of x] round_half_even_error [of y] by linarith
  with \<open>\<not> ?thesis\<close> show False by simp
qed

lemma round_half_even_le: "x \<le> of_int n \<Longrightarrow> round_half_even x \<le> n"
  using round_half_even_mono [of x "of_int n"] by simp

lemma round_half_even_ge: "of_int n \<le> x \<Longrightarrow> n \<le> round_half_even x"
  using round_half_even_mono [of "of_int n" x] by simp

lemma round_half_even_nonneg [simp]: "0 \<le> x \<Longrightarrow> 0 \<le> round_half_even x"
  using round_half_even_ge [of 0 x] by simp

text \<open>
  \<open>round_exp p emin r\<close> is the exponent of the last place of \<open>r\<close> in a format of \<open>p\<close> significant
  bits with least exponent \<open>emin\<close>; \<open>round_to\<close> rounds the magnitude \<open>r\<close> there.
\<close>

definition round_exp :: "nat \<Rightarrow> int \<Rightarrow> rat \<Rightarrow> int" where
  "round_exp p emin r = max emin (ilog 2 r - (int p - 1))"

definition round_to :: "nat \<Rightarrow> int \<Rightarrow> rat \<Rightarrow> rat" where
  "round_to p emin r =
     (if r \<le> 0 then 0
      else of_int (round_half_even (r / 2 powi round_exp p emin r)) * 2 powi round_exp p emin r)"

definition representable :: "nat \<Rightarrow> int \<Rightarrow> rat \<Rightarrow> bool" where
  "representable p emin r \<longleftrightarrow>
     (\<exists>m e. 0 \<le> m \<and> m < 2 ^ p \<and> emin \<le> e \<and> r = of_int m * 2 powi e)"

lemma two_powi_pos [simp]: "(0::rat) < 2 powi e"
  by simp

lemma round_to_0 [simp]: "round_to p emin 0 = 0"
  by (simp add: round_to_def)

lemma round_to_nonneg [simp]: "0 \<le> round_to p emin r"
  by (simp add: round_to_def)

lemma round_to_error:
  assumes "0 < r"
  shows "\<bar>round_to p emin r - r\<bar> \<le> 2 powi round_exp p emin r / 2"
proof -
  let ?u = "(2::rat) powi round_exp p emin r"
  have "round_to p emin r - r = (of_int (round_half_even (r / ?u)) - r / ?u) * ?u"
    using assms by (simp add: round_to_def field_simps)
  then have "\<bar>round_to p emin r - r\<bar> = \<bar>of_int (round_half_even (r / ?u)) - r / ?u\<bar> * ?u"
    by (simp add: abs_mult)
  also have "\<dots> \<le> 1 / 2 * ?u"
    by (rule mult_right_mono [OF round_half_even_error]) simp
  finally show ?thesis by simp
qed

lemma round_exp_upper:
  assumes "0 < r" and "0 < p"
  shows "r < 2 ^ p * 2 powi round_exp p emin r"
proof -
  have "r < 2 powi (ilog 2 r + 1)" using ilog_bounds(2) [of 2 r] assms by simp
  also have "\<dots> \<le> 2 powi (int p + round_exp p emin r)"
    by (rule power_int_increasing) (auto simp: round_exp_def)
  finally show ?thesis by (simp add: power_int_add)
qed

lemma round_exp_lower:
  assumes "0 < r" and "0 < p" and "emin < round_exp p emin r"
  shows "2 ^ (p - 1) * 2 powi round_exp p emin r \<le> r"
proof -
  have "round_exp p emin r = ilog 2 r - int (p - 1)"
    using assms by (auto simp: round_exp_def max_def of_nat_diff split: if_splits)
  then have "(2::rat) ^ (p - 1) * 2 powi round_exp p emin r = 2 powi ilog 2 r"
    by (simp add: power_int_add [symmetric] flip: power_int_of_nat)
  then show ?thesis using ilog_bounds(1) [of 2 r] assms(1) by simp
qed

text \<open>The relative error of rounding a magnitude that is not subnormal.\<close>

lemma round_to_rel_error:
  assumes "0 < r" and "0 < p" and "2 powi (emin + int p - 1) \<le> r"
  shows "\<bar>round_to p emin r - r\<bar> \<le> r / 2 ^ p"
proof -
  have "ilog 2 (2 powi (emin + int p - 1)) = emin + int p - 1"
    by (rule ilog_eqI) (simp_all add: powi_less_iff)
  then have "emin + int p - 1 \<le> ilog 2 r"
    using ilog_mono [of 2 "2 powi (emin + int p - 1)" r] assms(3) by simp
  then have e: "round_exp p emin r = ilog 2 r - (int p - 1)" by (simp add: round_exp_def)
  have "(2::rat) powi (ilog 2 r - (int p - 1)) / 2 = 2 powi ilog 2 r / 2 ^ p"
    by (simp add: power_int_diff power_int_add)
  also have "\<dots> \<le> r / 2 ^ p"
    using ilog_bounds(1) [of 2 r] assms(1) by (simp add: divide_right_mono)
  finally show ?thesis using round_to_error [OF assms(1), of p emin] unfolding e by linarith
qed

lemma round_to_mono:
  assumes "r \<le> s" and "0 < p"
  shows "round_to p emin r \<le> round_to p emin s"
proof (cases "0 < r")
  case True
  let ?er = "round_exp p emin r" and ?es = "round_exp p emin s"
  have le: "?er \<le> ?es"
    using ilog_mono [of 2 r s] True assms by (auto simp: round_exp_def)
  show ?thesis
  proof (cases "?er = ?es")
    case eq: True
    have "r / 2 powi ?es \<le> s / 2 powi ?es"
      using assms(1) by (simp add: divide_right_mono)
    then have "(of_int (round_half_even (r / 2 powi ?es)) :: rat) \<le> of_int (round_half_even (s / 2 powi ?es))"
      by (simp add: round_half_even_mono)
    then show ?thesis using True assms(1) eq by (simp add: round_to_def mult_right_mono)
  next
    case False
    with le have lt: "?er < ?es" by simp
    have "r / 2 powi ?er \<le> of_int (2 ^ p)"
      using round_exp_upper [OF True assms(2), of emin] by (simp add: divide_le_eq)
    then have "round_half_even (r / 2 powi ?er) \<le> 2 ^ p" by (rule round_half_even_le)
    then have "(of_int (round_half_even (r / 2 powi ?er)) :: rat) \<le> of_int (2 ^ p)"
      by (simp only: of_int_le_iff)
    then have "round_to p emin r \<le> 2 ^ p * 2 powi ?er"
      using True by (simp add: round_to_def mult_right_mono)
    also have "\<dots> = 2 ^ (p - 1) * 2 powi (?er + 1)"
      using assms(2) by (cases p) (simp_all add: power_int_add)
    also have "\<dots> \<le> 2 ^ (p - 1) * 2 powi ?es"
      using lt by (simp add: power_int_increasing)
    also have "\<dots> \<le> round_to p emin s"
    proof -
      have s: "0 < s" using True assms(1) by simp
      have em: "emin < ?es" using lt by (simp add: round_exp_def)
      have "of_int (2 ^ (p - 1)) \<le> s / 2 powi ?es"
        using round_exp_lower [OF s assms(2) em] by (simp add: le_divide_eq)
      then have "2 ^ (p - 1) \<le> round_half_even (s / 2 powi ?es)" by (rule round_half_even_ge)
      then have "of_int (2 ^ (p - 1)) \<le> (of_int (round_half_even (s / 2 powi ?es)) :: rat)"
        by (simp only: of_int_le_iff)
      then show ?thesis using s by (simp add: round_to_def mult_right_mono)
    qed
    finally show ?thesis .
  qed
qed (simp add: round_to_def)

text \<open>A representable magnitude is rounded to itself.\<close>

lemma round_to_representable:
  assumes "representable p emin r"
  shows "round_to p emin r = r"
proof (cases "0 < r")
  case True
  obtain m e where m: "0 \<le> m" "m < 2 ^ p" "emin \<le> e" "r = of_int m * 2 powi e"
    using assms by (auto simp: representable_def)
  have "(of_int m :: rat) < of_int (2 ^ p)" using m(2) by (simp only: of_int_less_iff)
  then have "r < 2 powi (int p + e)" using m(4) by (simp add: power_int_add)
  moreover have "2 powi ilog 2 r \<le> r" using ilog_bounds(1) [of 2 r] True by simp
  ultimately have "(2::rat) powi ilog 2 r < 2 powi (int p + e)" by linarith
  then have "ilog 2 r < int p + e" by (simp add: powi_less_iff)
  define q where "q = round_exp p emin r"
  have "q \<le> e" using m(3) \<open>ilog 2 r < int p + e\<close> by (simp add: round_exp_def q_def)
  then obtain k where k: "e = q + int k" using zle_iff_zadd by blast
  have r: "r = of_int (m * 2 ^ k) * 2 powi q" using m(4) by (simp add: k power_int_add)
  then have "r / 2 powi q = of_int (m * 2 ^ k)" by simp
  then have "round_half_even (r / 2 powi q) = m * 2 ^ k" by (simp only: round_half_even_of_int)
  then have "round_to p emin r = of_int (m * 2 ^ k) * 2 powi q"
    using True by (simp add: round_to_def q_def [symmetric])
  then show ?thesis by (simp only: r [symmetric])
next
  case False
  have "0 \<le> r" using assms by (auto simp: representable_def)
  with False show ?thesis by simp
qed

lemma representable_round_to:
  assumes "0 < p"
  shows "representable p emin (round_to p emin r)"
proof (cases "0 < r")
  case True
  let ?e = "round_exp p emin r"
  let ?m = "round_half_even (r / 2 powi ?e)"
  have "r / 2 powi ?e \<le> of_int (2 ^ p)"
    using round_exp_upper [OF True assms, of emin] by (simp add: divide_le_eq)
  then have le: "?m \<le> 2 ^ p" by (rule round_half_even_le)
  have nn: "0 \<le> ?m" using True by simp
  have em: "emin \<le> ?e" by (simp add: round_exp_def)
  show ?thesis
  proof (cases "?m = 2 ^ p")
    case eq: True
    have "round_to p emin r = of_int (2 ^ (p - 1)) * 2 powi (?e + 1)"
      using True assms eq by (cases p) (simp_all add: round_to_def power_int_add)
    then show ?thesis using em assms unfolding representable_def
      by (intro exI [of _ "2 ^ (p - 1)"] exI [of _ "?e + 1"]) simp
  next
    case False
    then have "?m < 2 ^ p" using le by simp
    then show ?thesis using True nn em unfolding representable_def
      by (intro exI [of _ ?m] exI [of _ ?e]) (simp add: round_to_def)
  qed
next
  case False
  then show ?thesis by (auto simp: representable_def round_to_def intro: exI [of _ "0::int"])
qed

section \<open>Doubles\<close>

text \<open>A sign (\<open>True\<close> for negative) and a magnitude, or one of the special values.\<close>

datatype double = NaN | Infty bool | Fin bool rat

definition fin_val :: "bool \<Rightarrow> rat \<Rightarrow> rat" where
  "fin_val s a = (if s then - a else a)"

text \<open>The rounding of an exact result to binary64 and to binary32.\<close>

definition DBL_MIN :: rat where
  "DBL_MIN = 2 powi (- 1022)"

definition DBL_OVERFLOW :: rat where
  "DBL_OVERFLOW = 2 ^ 1024"

definition FLT_OVERFLOW :: rat where
  "FLT_OVERFLOW = 2 ^ 128"

definition to_double :: "bool \<Rightarrow> rat \<Rightarrow> double" where
  "to_double s r =
     (let m = round_to 53 (- 1074) r in if DBL_OVERFLOW \<le> m then Infty s else Fin s m)"

definition to_float :: "bool \<Rightarrow> rat \<Rightarrow> double" where
  "to_float s r =
     (let m = round_to 24 (- 149) r in if FLT_OVERFLOW \<le> m then Infty s else Fin s m)"

definition int_to_double :: "int \<Rightarrow> double" where
  "int_to_double i = to_double (i < 0) (of_int \<bar>i\<bar>)"

definition int_to_float :: "int \<Rightarrow> double" where
  "int_to_float i = to_float (i < 0) (of_int \<bar>i\<bar>)"

text \<open>A double is well formed when its magnitude is a binary64 number.\<close>

fun wf_double :: "double \<Rightarrow> bool" where
  "wf_double (Fin s a) = (representable 53 (- 1074) a \<and> a < DBL_OVERFLOW)"
| "wf_double _ = True"

subsection \<open>Comparison\<close>

fun double_less :: "double \<Rightarrow> double \<Rightarrow> bool" where
  "double_less NaN _ = False"
| "double_less _ NaN = False"
| "double_less (Infty s) (Infty t) = (s \<and> \<not> t)"
| "double_less (Infty s) (Fin _ _) = s"
| "double_less (Fin _ _) (Infty t) = (\<not> t)"
| "double_less (Fin s a) (Fin t b) = (fin_val s a < fin_val t b)"

text \<open>\<open>feq\<close> is the \<open>==\<close> of C++.\<close>

fun feq :: "double \<Rightarrow> double \<Rightarrow> bool" where
  "feq (Infty s) (Infty t) = (s = t)"
| "feq (Fin s a) (Fin t b) = (fin_val s a = fin_val t b)"
| "feq _ _ = False"

instantiation double :: "{ord, zero, one, uminus, plus, minus, times, inverse}"
begin

definition less_double :: "double \<Rightarrow> double \<Rightarrow> bool" where
  "x < y \<longleftrightarrow> double_less x y"

definition less_eq_double :: "double \<Rightarrow> double \<Rightarrow> bool" where
  "x \<le> y \<longleftrightarrow> double_less x y \<or> feq x y"

definition zero_double :: double where
  "0 = Fin False 0"

definition one_double :: double where
  "1 = Fin False 1"

fun uminus_double :: "double \<Rightarrow> double" where
  "- NaN = NaN"
| "- Infty s = Infty (\<not> s)"
| "- Fin s a = Fin (\<not> s) a"

fun plus_double :: "double \<Rightarrow> double \<Rightarrow> double" where
  "NaN + y = NaN"
| "x + NaN = NaN"
| "Infty s + Infty t = (if s = t then Infty s else NaN)"
| "Infty s + Fin _ _ = Infty s"
| "Fin _ _ + Infty t = Infty t"
| "Fin s a + Fin t b =
     (let v = fin_val s a + fin_val t b in
      if v = 0 then Fin (s \<and> t) 0 else to_double (v < 0) \<bar>v\<bar>)"

definition minus_double :: "double \<Rightarrow> double \<Rightarrow> double" where
  "x - y = x + (- y)" for x y :: double

fun times_double :: "double \<Rightarrow> double \<Rightarrow> double" where
  "NaN * y = NaN"
| "x * NaN = NaN"
| "Infty s * Infty t = Infty (s \<noteq> t)"
| "Infty s * Fin t b = (if b = 0 then NaN else Infty (s \<noteq> t))"
| "Fin s a * Infty t = (if a = 0 then NaN else Infty (s \<noteq> t))"
| "Fin s a * Fin t b = to_double (s \<noteq> t) (a * b)"

fun divide_double :: "double \<Rightarrow> double \<Rightarrow> double" where
  "divide_double NaN y = NaN"
| "divide_double x NaN = NaN"
| "divide_double (Infty s) (Infty t) = NaN"
| "divide_double (Infty s) (Fin t _) = Infty (s \<noteq> t)"
| "divide_double (Fin s _) (Infty t) = Fin (s \<noteq> t) 0"
| "divide_double (Fin s a) (Fin t b) =
     (if b = 0 then (if a = 0 then NaN else Infty (s \<noteq> t)) else to_double (s \<noteq> t) (a / b))"

definition inverse_double :: "double \<Rightarrow> double" where
  "inverse x = divide 1 x" for x :: double

instance ..

end

text \<open>The quotient of two \<open>float\<close> values, rounded to binary32.\<close>

fun float_divide :: "double \<Rightarrow> double \<Rightarrow> double" where
  "float_divide NaN y = NaN"
| "float_divide x NaN = NaN"
| "float_divide (Infty s) (Infty t) = NaN"
| "float_divide (Infty s) (Fin t _) = Infty (s \<noteq> t)"
| "float_divide (Fin s _) (Infty t) = Fin (s \<noteq> t) 0"
| "float_divide (Fin s a) (Fin t b) =
     (if b = 0 then (if a = 0 then NaN else Infty (s \<noteq> t)) else to_float (s \<noteq> t) (a / b))"

text \<open>\<open>CLAMP(x, low, high)\<close> of GLib, on doubles. A NaN passes through.\<close>

definition clamp :: "double \<Rightarrow> double \<Rightarrow> double \<Rightarrow> double" where
  "clamp x low high = (if high < x then high else if x < low then low else x)"

subsection \<open>Conversion to integers\<close>

text \<open>
  A conversion truncates towards zero. When the truncated value does not fit the target type
  the behaviour is undefined in C++: \<open>None\<close>.
\<close>

fun double_trunc :: "double \<Rightarrow> int option" where
  "double_trunc (Fin s a) = Some (if s then - \<lfloor>a\<rfloor> else \<lfloor>a\<rfloor>)"
| "double_trunc _ = None"

definition double_to_int64 :: "double \<Rightarrow> int64 option" where
  "double_to_int64 x =
     (case double_trunc x of
        None \<Rightarrow> None
      | Some i \<Rightarrow> if - (2 ^ 63) \<le> i \<and> i < 2 ^ 63 then Some (word_of_int i) else None)"

definition double_to_uint64 :: "double \<Rightarrow> uint64 option" where
  "double_to_uint64 x =
     (case double_trunc x of
        None \<Rightarrow> None
      | Some i \<Rightarrow> if 0 \<le> i \<and> i < 2 ^ 64 then Some (word_of_int i) else None)"

lemmas double_order_defs = less_double_def less_eq_double_def fin_val_def

lemma to_double_cases:
  obtains "to_double s r = Infty s" | "to_double s r = Fin s (round_to 53 (- 1074) r)"
  by (cases "DBL_OVERFLOW \<le> round_to 53 (- 1074) r") (auto simp: to_double_def Let_def)

lemma wf_to_double [simp]: "wf_double (to_double s r)"
  by (auto simp: to_double_def Let_def representable_round_to)

lemma to_double_representable:
  "representable 53 (- 1074) r \<Longrightarrow> r < DBL_OVERFLOW \<Longrightarrow> to_double s r = Fin s r"
  by (simp add: to_double_def round_to_representable)

lemma clamp_cases: "clamp x l h \<in> {x, l, h}"
  by (simp add: clamp_def)

lemma clamp_range:
  assumes "l \<le> h" and "x \<noteq> NaN"
  shows "l \<le> clamp x l h \<and> clamp x l h \<le> h"
  using assms by (cases l; cases h; cases x) (auto simp: clamp_def double_order_defs split: if_splits)

text \<open>Scaling by a positive constant and truncating is monotone on the numbers from 0 on, and
  does not leave the range of the target type below its largest value.\<close>

lemma double_trunc_nonneg:
  assumes "0 \<le> x" and "double_trunc (x * Fin False c) = Some i" and "0 < c"
  shows "0 \<le> i"
  using assms
  by (cases x) (auto simp: double_order_defs zero_double_def to_double_def Let_def round_to_def
      mult_le_0_iff split: if_splits)

lemma double_trunc_scale_mono:
  assumes "0 \<le> x" and "x \<le> y" and "double_trunc (y * Fin False c) = Some j" and "0 < c"
    and "wf_double y"
  shows "\<exists>i. double_trunc (x * Fin False c) = Some i \<and> 0 \<le> i \<and> i \<le> j"
proof -
  obtain t b where y: "y = Fin t b" using assms(3,4) by (cases y) auto
  obtain s a where x: "x = Fin s a"
    using assms(1,2) y by (cases x) (auto simp: double_order_defs zero_double_def split: if_splits)
  have b: "0 \<le> b" using assms(5) y by (auto simp: representable_def)
  have ab: "a * c \<le> b * c" if "\<not> t" "\<not> s" 
    using assms(1,2,4) x y that by (auto simp: double_order_defs zero_double_def)
  show ?thesis
  proof (cases "s \<or> t")
    case True
    then have "round_to 53 (- 1074) (a * c) = 0"
      using assms(1,2,4) x y b
      by (auto simp: double_order_defs zero_double_def round_to_def mult_le_0_iff zero_le_mult_iff split: if_splits)
    moreover have "0 \<le> j"
      using double_trunc_nonneg [of y c j] assms x y
      by (auto simp: double_order_defs zero_double_def split: if_splits)
    ultimately show ?thesis using x
      by (auto simp: to_double_def DBL_OVERFLOW_def split: if_splits)
  next
    case False
    then have "round_to 53 (- 1074) (a * c) \<le> round_to 53 (- 1074) (b * c)"
      using ab by (intro round_to_mono) auto
    then show ?thesis using assms(3) x y False
      by (auto simp: to_double_def Let_def floor_mono split: if_splits)
  qed
qed

lemma double_to_int64_Some:
  "double_to_int64 x = Some w \<longleftrightarrow>
     (\<exists>i. double_trunc x = Some i \<and> - (2 ^ 63) \<le> i \<and> i < 2 ^ 63 \<and> w = word_of_int i)"
  by (auto simp: double_to_int64_def split: option.splits if_splits)

lemma sint_word64: "- (2 ^ 63) \<le> i \<Longrightarrow> i < 2 ^ 63 \<Longrightarrow> sint (word_of_int i :: int64) = i"
  by (simp add: int_word_sint)

lemma double_to_int64_scale_mono:
  assumes "0 \<le> x" and "x \<le> y" and "double_to_int64 (y * Fin False c) = Some hi" and "0 < c"
    and "wf_double y"
  shows "\<exists>w. double_to_int64 (x * Fin False c) = Some w \<and> 0 \<le> sint w \<and> sint w \<le> sint hi"
proof -
  obtain j where j: "double_trunc (y * Fin False c) = Some j" "- (2 ^ 63) \<le> j" "j < 2 ^ 63"
      "hi = word_of_int j"
    using assms(3) [unfolded double_to_int64_Some] by (elim exE conjE) (rule that)
  obtain i where i: "double_trunc (x * Fin False c) = Some i" "0 \<le> i" "i \<le> j"
    using double_trunc_scale_mono [OF assms(1,2) j(1) assms(4,5)] by blast
  have "double_to_int64 (x * Fin False c) = Some (word_of_int i)"
    unfolding double_to_int64_Some using i j by (intro exI [of _ i]) simp
  moreover have "sint (word_of_int i :: int64) = i" "sint hi = j"
    using i j by (simp_all add: sint_word64)
  ultimately show ?thesis using i by auto
qed

subsection \<open>The error of an operation\<close>

text \<open>Half a unit in the last place: relative \<open>2 ^ - 53\<close> for a normal result, absolute
  \<open>2 ^ - 1075\<close> for a subnormal one.\<close>

definition tiny :: rat where
  "tiny = 2 powi (- 1075)"

lemma tiny_pos [simp]: "0 < tiny"
  by (simp add: tiny_def)

lemma tiny_bounds [simp]: "0 \<le> tiny" "tiny \<le> 1 / 2 ^ 100"
  by (simp_all add: tiny_def power_int_minus field_simps)

lemma round_double_error:
  assumes "0 \<le> r"
  shows "\<bar>round_to 53 (- 1074) r - r\<bar> \<le> r / 2 ^ 53 + tiny"
proof -
  consider "r = 0" | "0 < r" "2 powi (- 1022) \<le> r" | "0 < r" "r < 2 powi (- 1022)"
    using assms by fastforce
  then show ?thesis
  proof cases
    case 2
    then have "\<bar>round_to 53 (- 1074) r - r\<bar> \<le> r / 2 ^ 53"
      using round_to_rel_error [of r 53 "- 1074"] by simp
    then show ?thesis using tiny_pos by linarith
  next
    case 3
    have "ilog 2 r < - 1022"
    proof -
      have "(2::rat) powi ilog 2 r \<le> r" using ilog_bounds(1) [of 2 r] 3(1) by simp
      then have "(2::rat) powi ilog 2 r < 2 powi (- 1022)" using 3(2) by linarith
      then show ?thesis by (simp only: powi_less_iff one_less_numeral_iff semiring_norm)
    qed
    then have "round_exp 53 (- 1074) r = - 1074" by (simp add: round_exp_def)
    then have "\<bar>round_to 53 (- 1074) r - r\<bar> \<le> 2 powi (- 1074) / 2"
      using round_to_error [OF 3(1), of 53 "- 1074"] by simp
    also have "(2::rat) powi (- 1074) / 2 = tiny"
      unfolding tiny_def using power_int_diff [of "2::rat" "- 1074" 1] by simp
    also have "tiny \<le> r / 2 ^ 53 + tiny" using 3(1) by simp
    finally show ?thesis .
  qed simp
qed

text \<open>A result far below the overflow threshold stays finite.\<close>

lemma to_double_finite:
  assumes "0 \<le> r" and "r \<le> 2 ^ 1000"
  shows "to_double s r = Fin s (round_to 53 (- 1074) r)"
proof -
  have "tiny \<le> 1" by (simp add: tiny_def power_int_minus field_simps)
  then have "round_to 53 (- 1074) r \<le> r + r / 2 ^ 53 + 1"
    using round_double_error [OF assms(1)] by linarith
  also have "\<dots> < DBL_OVERFLOW"
  proof -
    have "r / 2 ^ 53 \<le> r" using assms(1) by (simp add: field_simps)
    then have "r + r / 2 ^ 53 + 1 \<le> 2 ^ 1000 + 2 ^ 1000 + 1" using assms(2) by linarith
    also have "\<dots> < DBL_OVERFLOW" by (simp add: DBL_OVERFLOW_def)
    finally show ?thesis .
  qed
  finally show ?thesis by (simp add: to_double_def Let_def not_le)
qed

lemma int_to_double_exact: "0 \<le> n \<Longrightarrow> n < 2 ^ 53 \<Longrightarrow> int_to_double n = Fin False (of_int n)"
proof -
  assume n: "0 \<le> n" "n < 2 ^ 53"
  have "representable 53 (- 1074) (of_int n)"
    unfolding representable_def using n by (intro exI [of _ n] exI [of _ "0::int"]) simp
  moreover have "(of_int n :: rat) < DBL_OVERFLOW"
  proof -
    have "(of_int n :: rat) < of_int (2 ^ 53)" using n(2) by (simp only: of_int_less_iff)
    also have "\<dots> < DBL_OVERFLOW" by (simp add: DBL_OVERFLOW_def)
    finally show ?thesis .
  qed
  ultimately show ?thesis using n(1) by (simp add: int_to_double_def to_double_representable)
qed

end
