(* ===== verification/Platform.thy ===== *)
theory Platform
  imports Doubles
begin

text \<open>
  The boundary of the program. GStreamer, GLib and GIO are not part of the repository: a call to
  them is an event appended to the trace of the process, and its answer is taken from the record
  \<open>env\<close>, a parameter of every definition, as a function of the whole history of events (the newest
  first, so its head is the call being answered, with its arguments). An arbitrary \<open>env\<close> is an
  arbitrary environment, including what other threads, the network and the clock do between two
  calls. A pointer is an \<open>option\<close>, \<open>None\<close> being \<open>nullptr\<close>.

  Two events are not calls. \<open>Fault\<close> marks that the source has run into undefined behaviour (a
  null pointer dereferenced, a value out of range of a conversion): nothing that follows it in
  a trace means anything. \<open>Diverged\<close> marks that a loop was cut after \<open>loop_bound\<close> iterations.
\<close>

section \<open>GStreamer values\<close>

type_synonym ptr = "nat option"

definition GST_STATE_VOID_PENDING :: int32 where "GST_STATE_VOID_PENDING = 0"
definition GST_STATE_NULL :: int32 where "GST_STATE_NULL = 1"
definition GST_STATE_READY :: int32 where "GST_STATE_READY = 2"
definition GST_STATE_PAUSED :: int32 where "GST_STATE_PAUSED = 3"
definition GST_STATE_PLAYING :: int32 where "GST_STATE_PLAYING = 4"

lemmas gst_state_defs =
  GST_STATE_VOID_PENDING_def GST_STATE_NULL_def GST_STATE_READY_def GST_STATE_PAUSED_def
  GST_STATE_PLAYING_def

definition GST_CLOCK_TIME_NONE :: uint64 where "GST_CLOCK_TIME_NONE = - 1"

text \<open>\<open>gdouble(GST_SECOND)\<close>, and nanoseconds as seconds.\<close>

definition GST_SECOND :: double where "GST_SECOND = Fin False 1000000000"

datatype state_change = Change_failure | Change_success | Change_async | Change_no_preroll

datatype message =
    Msg_error string "string option"     \<comment> \<open>the error's text and the debug string, which may be null\<close>
  | Msg_warning string "string option"
  | Msg_info string "string option"
  | Msg_state_changed ptr int32 int32    \<comment> \<open>source, old and new state\<close>
  | Msg_async_done
  | Msg_duration_changed
  | Msg_eos
  | Msg_other

section \<open>Events\<close>

datatype gst_call =
    Is_initialized
  | Init_check
  | Discoverer_new
  | Discoverer_discover_uri string
  | Discoverer_query
  | Stream_list_free
  | Stream_info_unref
  | Info_unref
  | Discoverer_unref
  | Parse_launch string
  | Pipeline_get_bus ptr
  | Get_video_sink ptr
  | Set_callbacks ptr
  | Sink_unref ptr
  | Set_state ptr int32
  | Get_state ptr
  | Pipeline_unref ptr
  | Bus_unref ptr
  | Bus_have_pending ptr
  | Bus_pop ptr
  | Message_unref
  | Seek_simple ptr int64
  | Query_position ptr
  | Query_duration ptr
  | Set_volume ptr double
  | Get_volume ptr
  | Pull_preroll
  | Pull_sample
  | Sample_caps ptr
  | Sample_get_buffer ptr
  | Buffer_map ptr
  | Buffer_unmap ptr
  | Sample_unref ptr
  | Registry_get
  | Registry_scan_path string

text \<open>Clocks and base times, of GStreamer and its network library.\<close>

datatype clock_call =
    Net_client_clock_new string int32 uint64   \<comment> \<open>address, port and base time\<close>
  | Net_time_provider_new ptr string int32
  | Pipeline_get_clock ptr
  | Clock_set_timeout ptr
  | Use_clock ptr ptr                          \<comment> \<open>pipeline and clock\<close>
  | Set_start_time ptr
  | Set_base_time ptr uint64
  | Get_base_time ptr
  | Clock_get_time ptr
  | Clock_unref ptr
  | Provider_unref ptr

text \<open>Sockets and main loops, of GIO and GLib.\<close>

datatype gio_call =
    Socket_new
  | Socket_set_blocking ptr
  | Socket_address_new int16                   \<comment> \<open>any address\<close>
  | Socket_bind ptr ptr
  | Context_new
  | Socket_create_source ptr
  | Source_attach ptr ptr
  | Source_unref ptr
  | Context_unref ptr
  | Address_unref ptr
  | Scoped_address_unref                       \<comment> \<open>an address bound to a scope\<close>
  | Socket_ref ptr
  | Socket_unref ptr
  | Socket_receive ptr nat
  | Context_pending ptr
  | Context_iteration ptr
  | Socket_client_new
  | Connect_to_host string int16
  | Get_output_stream
  | Stream_write string
  | Connection_unref
  | Socket_client_unref
  | Address_from_string string int16
  | Service_new
  | Listener_add_address ptr
  | Connect_incoming ptr
  | Service_start ptr
  | Service_is_active ptr
  | Service_stop ptr
  | Get_input_stream
  | Stream_read nat
  | Remote_address
  | Inet_address
  | Address_to_string
  | Endpoint_address_new string int16
  | Socket_get_timeout ptr
  | Socket_set_timeout ptr nat
  | Socket_send_to ptr ptr string

text \<open>The Windows calls of \<open>listModules\<close>, with the sizes of the buffers they are given.\<close>

datatype windows_call =
    Enum_process_modules nat
  | Get_module_file_name nat nat

datatype event =
    Gst gst_call
  | Clk clock_call
  | Gio gio_call
  | Win windows_call
  | G_free
  | G_error_free
  | G_filename_to_uri string
  | Logged string
  | Fault string
  | Diverged

section \<open>Answers\<close>

text \<open>What a discovery finds: the width, height and frame rate (numerator, denominator) of each
  video stream, the sample and bit rate of each audio stream, seekability, and the duration in
  nanoseconds. \<open>None\<close> stands for a stream in the list that is not of the type asked for.\<close>

record media_info =
  video_streams :: "(int32 \<times> int32 \<times> uint32 \<times> uint32) option list"
  audio_streams :: "(uint32 \<times> uint32) option list"
  seekable :: bool
  duration_ns :: uint64

text \<open>What \<open>onPreroll\<close> reads from the caps of a sample.\<close>

datatype caps = No_caps | Not_fixed | No_structure | Caps "int32 option" "int32 option"

record env =
  gst_is_initialized :: "event list \<Rightarrow> bool"
  gst_init_check :: "event list \<Rightarrow> bool"
  g_filename_to_uri :: "event list \<Rightarrow> string option"
  gst_discoverer_new :: "event list \<Rightarrow> bool"
  gst_discover_uri :: "event list \<Rightarrow> bool"
  gst_discover_result :: "event list \<Rightarrow> media_info option"   \<comment> \<open>\<open>None\<close>: not \<open>GST_DISCOVERER_OK\<close>\<close>
  gst_parse_launch :: "event list \<Rightarrow> ptr \<times> bool"             \<comment> \<open>and whether it set the error\<close>
  gst_pipeline_get_bus :: "event list \<Rightarrow> ptr"
  gst_video_sink :: "event list \<Rightarrow> ptr"
  gst_element_set_state :: "event list \<Rightarrow> state_change"
  gst_element_get_state :: "event list \<Rightarrow> state_change \<times> int32 option"   \<comment> \<open>\<open>None\<close>: not written\<close>
  gst_bus_have_pending :: "event list \<Rightarrow> bool"
  gst_bus_pop :: "event list \<Rightarrow> message option"
  gst_element_seek_simple :: "event list \<Rightarrow> bool"
  gst_element_query_position :: "event list \<Rightarrow> int64 option"
  gst_element_query_duration :: "event list \<Rightarrow> int64 option"
  gst_get_volume :: "event list \<Rightarrow> double"
  gst_pull_preroll :: "event list \<Rightarrow> ptr"
  gst_pull_sample :: "event list \<Rightarrow> ptr"
  gst_sample_caps :: "event list \<Rightarrow> caps"
  gst_sample_get_buffer :: "event list \<Rightarrow> ptr"
  gst_buffer_map :: "event list \<Rightarrow> nat \<times> nat"                    \<comment> \<open>data and size\<close>
  gst_registry_get :: "event list \<Rightarrow> bool"
  gst_net_client_clock_new :: "event list \<Rightarrow> ptr"
  gst_net_time_provider_new :: "event list \<Rightarrow> ptr"
  gst_pipeline_get_clock :: "event list \<Rightarrow> ptr"
  gst_clock_get_time :: "event list \<Rightarrow> uint64"
  gst_element_get_base_time :: "event list \<Rightarrow> uint64"
  g_socket_new :: "event list \<Rightarrow> ptr"
  g_inet_socket_address_new :: "event list \<Rightarrow> ptr"
  g_socket_bind :: "event list \<Rightarrow> bool"
  g_main_context_new :: "event list \<Rightarrow> nat"
  g_socket_create_source :: "event list \<Rightarrow> nat"
  g_main_context_pending :: "event list \<Rightarrow> bool"
  g_main_context_iteration :: "event list \<Rightarrow> bool"           \<comment> \<open>whether our callback is dispatched\<close>
  g_socket_receive :: "event list \<Rightarrow> string option"           \<comment> \<open>\<open>None\<close>: an error\<close>
  g_socket_client_new :: "event list \<Rightarrow> bool"
  g_socket_client_connect_to_host :: "event list \<Rightarrow> bool"
  g_io_stream_get_output_stream :: "event list \<Rightarrow> bool"
  g_output_stream_write :: "event list \<Rightarrow> bool"               \<comment> \<open>whether it succeeds\<close>
  g_inet_socket_address_new_from_string :: "event list \<Rightarrow> bool"
  g_socket_service_new :: "event list \<Rightarrow> ptr"
  g_socket_listener_add_address :: "event list \<Rightarrow> bool"
  g_socket_service_is_active :: "event list \<Rightarrow> bool"
  g_io_stream_get_input_stream :: "event list \<Rightarrow> bool"
  g_input_stream_read :: "event list \<Rightarrow> string option"        \<comment> \<open>\<open>None\<close>: an error\<close>
  g_socket_connection_get_remote_address :: "event list \<Rightarrow> bool"
  g_inet_socket_address_get_address :: "event list \<Rightarrow> bool"
  g_inet_address_to_string :: "event list \<Rightarrow> string option"
  g_socket_get_timeout :: "event list \<Rightarrow> nat"
  g_socket_send_to :: "event list \<Rightarrow> bool"
  enum_process_modules :: "event list \<Rightarrow> nat list option"    \<comment> \<open>all modules; \<open>None\<close>: failure\<close>
  get_module_file_name :: "event list \<Rightarrow> string option"     \<comment> \<open>\<open>None\<close>: failure\<close>
  unordered :: "event list \<Rightarrow> string list \<Rightarrow> string list"      \<comment> \<open>the order of an \<open>unordered_map\<close>\<close>
  loop_bound :: nat

section \<open>The process\<close>

text \<open>Every object lives in a process: the trace, and the function-level \<open>static\<close> variable of
  \<open>Player::setMute\<close>, which all players share.\<close>

record world =
  trace :: "event list"
  saved_volume :: double

definition emit :: "event \<Rightarrow> 'a world_scheme \<Rightarrow> 'a world_scheme" where
  "emit e s = s\<lparr>trace := e # trace s\<rparr>"

definition ask :: "(event list \<Rightarrow> 'r) \<Rightarrow> event \<Rightarrow> 'a world_scheme \<Rightarrow> 'r \<times> 'a world_scheme" where
  "ask answer e s = (answer (e # trace s), emit e s)"

abbreviation NSVR_LOG :: "string \<Rightarrow> 'a world_scheme \<Rightarrow> 'a world_scheme" where
  "NSVR_LOG msg s \<equiv> emit (Logged msg) s"

text \<open>A log statement that prints \<open>errors->message\<close>, where \<open>errors\<close> is null unless the call
  before it has set it.\<close>

definition log_error :: "bool \<Rightarrow> string \<Rightarrow> 'a world_scheme \<Rightarrow> 'a world_scheme" where
  "log_error errors_set msg s =
     (if errors_set then emit (Logged msg) s else emit (Fault ''errors->message with errors == nullptr'') s)"

lemma emit_simps [simp]:
  "trace (emit e s) = e # trace s"
  "saved_volume (emit e s) = saved_volume s"
  by (simp_all add: emit_def)

lemma ask_simps [simp]:
  "fst (ask f e s) = f (e # trace s)"
  "snd (ask f e s) = emit e s"
  by (simp_all add: ask_def)

text \<open>References to objects are counted by the kind of object and its address: what one kind and one
  pointer contribute to a count.\<close>

definition count_ref :: "'k \<times> ptr \<Rightarrow> 'k \<Rightarrow> nat \<Rightarrow> int" where
  "count_ref kp k p = of_bool (kp = (k, Some p))"

lemma count_ref_simps [simp]:
  "count_ref (k', None) k p = 0"
  "count_ref (k', Some q) k p = (if k' = k \<and> q = p then 1 else 0)"
  by (auto simp: count_ref_def)

lemma count_ref_other [simp]: "k' \<noteq> k \<Longrightarrow> count_ref (k', q) k p = 0"
  by (simp add: count_ref_def)

lemma count_ref_nonneg [simp]: "0 \<le> count_ref kp k p"
  by (simp add: count_ref_def)

text \<open>A trace free of undefined behaviour and of cut loops.\<close>

fun sound_event :: "event \<Rightarrow> bool" where
  "sound_event (Fault _) = False"
| "sound_event Diverged = False"
| "sound_event _ = True"

definition sound :: "'a world_scheme \<Rightarrow> bool" where
  "sound s \<longleftrightarrow> (\<forall>e \<in> set (trace s). sound_event e)"

fun is_log :: "event \<Rightarrow> bool" where
  "is_log (Logged _) = True"
| "is_log _ = False"

section \<open>A calm environment\<close>

text \<open>The environment of the concrete runs of this development: every call succeeds, the media has
  a video and an audio stream and lasts ten seconds, nothing arrives from bus or network.\<close>

definition calm :: env where
  "calm =
     \<lparr>gst_is_initialized = (\<lambda>_. True), gst_init_check = (\<lambda>_. True),
      g_filename_to_uri = (\<lambda>_. Some ''file:///a.mp4''), gst_discoverer_new = (\<lambda>_. True),
      gst_discover_uri = (\<lambda>_. True),
      gst_discover_result = (\<lambda>_. Some \<lparr>video_streams = [Some (640, 480, 30, 1)],
        audio_streams = [Some (44100, 128)], seekable = True, duration_ns = 10000000000\<rparr>),
      gst_parse_launch = (\<lambda>_. (Some 1, False)), gst_pipeline_get_bus = (\<lambda>_. Some 2),
      gst_video_sink = (\<lambda>_. Some 3), gst_element_set_state = (\<lambda>_. Change_success),
      gst_element_get_state = (\<lambda>_. (Change_success, Some GST_STATE_PAUSED)),
      gst_bus_have_pending = (\<lambda>_. False), gst_bus_pop = (\<lambda>_. None),
      gst_element_seek_simple = (\<lambda>_. True), gst_element_query_position = (\<lambda>_. Some 0),
      gst_element_query_duration = (\<lambda>_. Some 10000000000), gst_get_volume = (\<lambda>_. 1),
      gst_pull_preroll = (\<lambda>_. Some 4), gst_pull_sample = (\<lambda>_. Some 5),
      gst_sample_caps = (\<lambda>_. Caps (Some 640) (Some 480)), gst_sample_get_buffer = (\<lambda>_. Some 6),
      gst_buffer_map = (\<lambda>_. (7, 1000)), gst_registry_get = (\<lambda>_. True),
      gst_net_client_clock_new = (\<lambda>_. Some 8), gst_net_time_provider_new = (\<lambda>_. Some 9),
      gst_pipeline_get_clock = (\<lambda>_. Some 10), gst_clock_get_time = (\<lambda>_. 5000000000),
      gst_element_get_base_time = (\<lambda>_. 1000000000), g_socket_new = (\<lambda>_. Some 11),
      g_inet_socket_address_new = (\<lambda>_. Some 12), g_socket_bind = (\<lambda>_. True),
      g_main_context_new = (\<lambda>_. 13), g_socket_create_source = (\<lambda>_. 14),
      g_main_context_pending = (\<lambda>_. False), g_main_context_iteration = (\<lambda>_. False),
      g_socket_receive = (\<lambda>_. None), g_socket_client_new = (\<lambda>_. True),
      g_socket_client_connect_to_host = (\<lambda>_. True), g_io_stream_get_output_stream = (\<lambda>_. True),
      g_output_stream_write = (\<lambda>_. True), g_inet_socket_address_new_from_string = (\<lambda>_. True),
      g_socket_service_new = (\<lambda>_. Some 15), g_socket_listener_add_address = (\<lambda>_. True),
      g_socket_service_is_active = (\<lambda>_. True), g_io_stream_get_input_stream = (\<lambda>_. True),
      g_input_stream_read = (\<lambda>_. Some ''nsvr''), g_socket_connection_get_remote_address = (\<lambda>_. True),
      g_inet_socket_address_get_address = (\<lambda>_. True),
      g_inet_address_to_string = (\<lambda>_. Some ''10.0.0.2''), g_socket_get_timeout = (\<lambda>_. 0),
      g_socket_send_to = (\<lambda>_. True), enum_process_modules = (\<lambda>_. Some [100, 200, 300]),
      get_module_file_name = (\<lambda>_. Some ''nsvr.dll''), unordered = (\<lambda>_ keys. rev keys), loop_bound = 100\<rparr>"

lemma calm_simps [simp]:
  "gst_is_initialized calm h = True"
  "gst_init_check calm h = True"
  "g_filename_to_uri calm h = Some ''file:///a.mp4''"
  "gst_discoverer_new calm h = True"
  "gst_discover_uri calm h = True"
  "gst_discover_result calm h = Some \<lparr>video_streams = [Some (640, 480, 30, 1)], audio_streams = [Some (44100, 128)], seekable = True, duration_ns = 10000000000\<rparr>"
  "gst_parse_launch calm h = (Some 1, False)"
  "gst_pipeline_get_bus calm h = Some 2"
  "gst_video_sink calm h = Some 3"
  "gst_element_set_state calm h = Change_success"
  "gst_element_get_state calm h = (Change_success, Some GST_STATE_PAUSED)"
  "gst_bus_have_pending calm h = False"
  "gst_bus_pop calm h = None"
  "gst_element_seek_simple calm h = True"
  "gst_element_query_position calm h = Some 0"
  "gst_element_query_duration calm h = Some 10000000000"
  "gst_get_volume calm h = 1"
  "gst_pull_preroll calm h = Some 4"
  "gst_pull_sample calm h = Some 5"
  "gst_sample_caps calm h = Caps (Some 640) (Some 480)"
  "gst_sample_get_buffer calm h = Some 6"
  "gst_buffer_map calm h = (7, 1000)"
  "gst_registry_get calm h = True"
  "gst_net_client_clock_new calm h = Some 8"
  "gst_net_time_provider_new calm h = Some 9"
  "gst_pipeline_get_clock calm h = Some 10"
  "gst_clock_get_time calm h = 5000000000"
  "gst_element_get_base_time calm h = 1000000000"
  "g_socket_new calm h = Some 11"
  "g_inet_socket_address_new calm h = Some 12"
  "g_socket_bind calm h = True"
  "g_main_context_new calm h = 13"
  "g_socket_create_source calm h = 14"
  "g_main_context_pending calm h = False"
  "g_main_context_iteration calm h = False"
  "g_socket_receive calm h = None"
  "g_socket_client_new calm h = True"
  "g_socket_client_connect_to_host calm h = True"
  "g_io_stream_get_output_stream calm h = True"
  "g_output_stream_write calm h = True"
  "g_inet_socket_address_new_from_string calm h = True"
  "g_socket_service_new calm h = Some 15"
  "g_socket_listener_add_address calm h = True"
  "g_socket_service_is_active calm h = True"
  "g_io_stream_get_input_stream calm h = True"
  "g_input_stream_read calm h = Some ''nsvr''"
  "g_socket_connection_get_remote_address calm h = True"
  "g_inet_socket_address_get_address calm h = True"
  "g_inet_address_to_string calm h = Some ''10.0.0.2''"
  "g_socket_get_timeout calm h = 0"
  "g_socket_send_to calm h = True"
  "enum_process_modules calm h = Some [100, 200, 300]"
  "get_module_file_name calm h = Some ''nsvr.dll''"
  "unordered calm h keys = rev keys"
  "loop_bound calm = 100"
  by (simp_all add: calm_def)

end
