(* ===== verification/Internal.thy ===== *)
theory Internal
  imports Platform
begin

text \<open>
  The helpers of \<open>source/nsvr/nsvr_internal.hpp/.cpp\<close>: the release of objects at the end of a scope,
  logging, initialisation of GStreamer, joining and splitting of strings, paths and the port
  arithmetic.
\<close>

section \<open>Scopes\<close>

text \<open>\<open>BIND_TO_SCOPE\<close> releases an object at the end of the scope its variable is declared in, with the
  call that the specialisation of the destructor for its type makes. The pointer is carried where
  the model keeps track of it. The destructor also nulls the variable, which nothing reads any
  more. Scopes of errors and strings, whose release frees memory and nothing else, are left out of
  the methods.\<close>

datatype scoped =
    Scoped_gchar
  | Scoped_GList
  | Scoped_GError
  | Scoped_GstClock ptr
  | Scoped_GstMessage
  | Scoped_GstAppSink ptr
  | Scoped_GInetAddress
  | Scoped_GSocketClient
  | Scoped_GstDiscoverer
  | Scoped_GSocketAddress
  | Scoped_GSocketConnection
  | Scoped_GstDiscovererInfo
  | Scoped_GstNetTimeProvider ptr
  | Scoped_GstDiscovererStreamInfo

fun scope_release :: "scoped \<Rightarrow> event" where
  "scope_release Scoped_gchar = G_free"
| "scope_release Scoped_GList = Gst Stream_list_free"
| "scope_release Scoped_GError = G_error_free"
| "scope_release (Scoped_GstClock p) = Clk (Clock_unref p)"
| "scope_release Scoped_GstMessage = Gst Message_unref"
| "scope_release (Scoped_GstAppSink p) = Gst (Sink_unref p)"
| "scope_release Scoped_GInetAddress = Gio Scoped_address_unref"
| "scope_release Scoped_GSocketClient = Gio Socket_client_unref"
| "scope_release Scoped_GstDiscoverer = Gst Discoverer_unref"
| "scope_release Scoped_GSocketAddress = Gio Scoped_address_unref"
| "scope_release Scoped_GSocketConnection = Gio Connection_unref"
| "scope_release Scoped_GstDiscovererInfo = Gst Info_unref"
| "scope_release (Scoped_GstNetTimeProvider p) = Clk (Provider_unref p)"
| "scope_release Scoped_GstDiscovererStreamInfo = Gst Stream_info_unref"

definition BindToScope_dtor :: "scoped \<Rightarrow> 'a world_scheme \<Rightarrow> 'a world_scheme" where
  [simp]: "BindToScope_dtor v s = emit (scope_release v) s"

lemmas leave_scope = BindToScope_dtor_def scope_release.simps

section \<open>Logging\<close>

text \<open>\<open>NSVR_LOG\<close> makes one line of the thread and the text it is given, and \<open>log\<close> writes it under a lock:
  to the debugger on Windows, as a C string, and to the standard output. The event \<open>Logged\<close> stands
  for the call with the fixed text of the message.\<close>

datatype log_sink = Debug_output string | Standard_output string

definition log_line :: "string \<Rightarrow> string \<Rightarrow> string" where
  "log_line thread buf = ''[NSVR]'' @ ''['' @ thread @ ''] '' @ buf @ [CHR 0x0A]"

definition log_output :: "bool \<Rightarrow> string \<Rightarrow> log_sink list" where
  "log_output windows msg = (if windows then [Debug_output (c_str msg)] else []) @ [Standard_output msg]"

section \<open>Initialisation and paths\<close>

text \<open>\<open>gst_init_check\<close> runs only when GStreamer is not initialised yet.\<close>

definition gstreamerInitialized :: "env \<Rightarrow> 'a world_scheme \<Rightarrow> bool \<times> 'a world_scheme" where
  "gstreamerInitialized E s =
     (let (initialized, s) = ask (gst_is_initialized E) (Gst Is_initialized) s in
      if initialized then (True, s)
      else
        (let (ok, s) = ask (gst_init_check E) (Gst Init_check) s in
         if ok then (True, s)
         else (False, NSVR_LOG ''GStreamer failed to initialize'' s)))"

definition pathToUri :: "env \<Rightarrow> string \<Rightarrow> 'a world_scheme \<Rightarrow> string \<times> 'a world_scheme" where
  "pathToUri E path s =
     (if path = [] then ([], NSVR_LOG ''Cannot process an empty path.'' s)
      else
        (let (uri, s) = ask (g_filename_to_uri E) (G_filename_to_uri (c_str path)) s in
         (case uri of
            None \<Rightarrow> (path, s)
          | Some u \<Rightarrow> (if u = [] then path else u, s))))"

section \<open>implode and explode\<close>

text \<open>\<open>implode\<close>: the elements but the last go through an \<open>ostream_iterator\<close> that writes the glue
  (a C string) after each of them; the last one is written bare.\<close>

definition implode :: "string list \<Rightarrow> string \<Rightarrow> string" where
  "implode elements glue =
     (case elements of
        [] \<Rightarrow> []
      | [e] \<Rightarrow> e
      | _ \<Rightarrow> concat (map (\<lambda>e. e @ c_str glue) (butlast elements)) @ last elements)"

text \<open>\<open>explode\<close>: \<open>beg\<close> and \<open>cur\<close> are iterators into the input. The characters between them are
  carried as \<open>tok\<close>; \<open>ret\<close> is the vector built so far.\<close>

fun explode_loop :: "char \<Rightarrow> string list \<Rightarrow> string \<Rightarrow> string \<Rightarrow> string list" where
  "explode_loop separator ret tok [] = ret @ [tok]"
| "explode_loop separator ret tok (c # cur) =
     (if c = separator then explode_loop separator (ret @ [tok]) [] cur
      else explode_loop separator ret (tok @ [c]) cur)"

definition explode :: "string \<Rightarrow> char \<Rightarrow> string list" where
  "explode input separator = explode_loop separator [] [] input"

lemma explode_loop_acc:
  "explode_loop c (ret @ ret') tok s = ret @ explode_loop c ret' tok s"
  by (induction s arbitrary: ret' tok) auto

lemma explode_loop_ret: "explode_loop c ret tok s = ret @ explode_loop c [] tok s"
  using explode_loop_acc [of c ret "[]"] by simp

lemma explode_loop_nonempty [simp]: "explode_loop c ret tok s \<noteq> []"
  by (induction s arbitrary: ret tok) auto

lemma explode_nonempty [simp]: "explode s c \<noteq> []"
  by (simp add: explode_def)

lemma explode_loop_token:
  "c \<notin> set x \<Longrightarrow> explode_loop c ret tok (x @ s) = explode_loop c ret (tok @ x) s"
  by (induction x arbitrary: tok) auto

lemma explode_single: "c \<notin> set x \<Longrightarrow> explode x c = [x]"
  using explode_loop_token [of c x "[]" "[]" "[]"] by (simp add: explode_def)

lemma explode_Cons: "c \<notin> set x \<Longrightarrow> explode (x @ c # s) c = x # explode s c"
  by (simp add: explode_def explode_loop_token explode_loop_ret [of c "[x]"])

text \<open>The two are inverse to each other: the glue of \<open>implode\<close> is the separator of \<open>explode\<close>.\<close>

lemma implode_Cons: "es \<noteq> [] \<Longrightarrow> implode (e # es) glue = e @ c_str glue @ implode es glue"
  by (cases es) (auto simp: implode_def split: list.splits)

lemma implode_single [simp]: "implode [e] glue = e"
  by (simp add: implode_def)

lemma implode_explode_loop:
  "c \<noteq> NUL \<Longrightarrow> implode (explode_loop c [] tok s) [c] = tok @ s"
proof (induction s arbitrary: tok)
  case (Cons d s)
  then show ?case
    using explode_loop_ret [of c "[tok]" "[]" s] by (auto simp: implode_Cons)
qed simp

lemma explode_implode_aux:
  "es \<noteq> [] \<Longrightarrow> c \<noteq> NUL \<Longrightarrow> \<forall>e \<in> set es. c \<notin> set e \<Longrightarrow> explode (implode es [c]) c = es"
proof (induction es)
  case (Cons e es)
  then show ?case
    by (cases "es = []") (auto simp: explode_single implode_Cons explode_Cons)
qed simp

section \<open>Ports\<close>

text \<open>\<open>getClockPort\<close>: the \<open>short\<close> is promoted to \<open>int\<close> for the comparison and the addition, and the
  result is narrowed back to \<open>short\<close>.\<close>

definition getClockPort :: "int16 \<Rightarrow> int16" where
  "getClockPort server_port =
     (if sint server_port = 65535 then word_of_int (sint server_port - 1)
      else word_of_int (sint server_port + 1))"

section \<open>Addresses and buffers\<close>

text \<open>\<open>getIp\<close>: the address of the peer, or the empty string.\<close>

definition getIp :: "env \<Rightarrow> 'a world_scheme \<Rightarrow> string \<times> 'a world_scheme" where
  "getIp E s =
     (let (found, s) = ask (g_socket_connection_get_remote_address E) (Gio Remote_address) s in
      if \<not> found then ([], s)
      else
        (let (inet, s) = ask (g_inet_socket_address_get_address E) (Gio Inet_address) s;
             (ip, s) =
               (if \<not> inet then ([], s)
                else
                  (let (text, s) = ask (g_inet_address_to_string E) (Gio Address_to_string) s in
                   (case text of None \<Rightarrow> ([], s) | Some ip \<Rightarrow> (c_str ip, s))))
         in (ip, BindToScope_dtor Scoped_GSocketAddress s)))"

text \<open>What a receive buffer of \<open>n\<close> bytes, zero before, holds as a C string after \<open>bytes\<close> have been
  received into it. A buffer filled to the last byte with no zero in it has no end: reading it
  runs past the buffer, \<open>None\<close>.\<close>

definition buffer_text :: "nat \<Rightarrow> string \<Rightarrow> string option" where
  "buffer_text n bytes =
     (let received = take n bytes in
      if NUL \<in> set received \<or> length received < n then Some (c_str received) else None)"

lemma buffer_text_short: "length bytes < n \<Longrightarrow> buffer_text n bytes = Some (c_str bytes)"
  by (simp add: buffer_text_def)

lemma buffer_text_full: "NUL \<notin> set bytes \<Longrightarrow> length bytes = n \<Longrightarrow> buffer_text n bytes = None"
  by (simp add: buffer_text_def)

section \<open>The interface to a base-class object\<close>

text \<open>\<open>Client\<close> and \<open>Server\<close> are base classes of the networked players, next to \<open>Player\<close>: their members are
  a part of a larger object. A method of theirs takes the access to that part as an argument,
  \<open>get\<close> and \<open>put\<close>; the methods rely on the laws of \<open>sub_object\<close>.\<close>

locale sub_object =
  fixes get :: "'a world_scheme \<Rightarrow> 'b"
    and put :: "'b \<Rightarrow> 'a world_scheme \<Rightarrow> 'a world_scheme"
  assumes get_put [simp]: "get (put c s) = c"
    and put_get [simp]: "put (get s) s = s"
    and put_put [simp]: "put c (put d s) = put c s"
    and get_emit [simp]: "get (emit e s) = get s"
    and emit_put [simp]: "emit e (put c s) = put c (emit e s)"
    and trace_put [simp]: "trace (put c s) = trace s"

end
