(* ===== verification/Discoverer.thy ===== *)
theory Discoverer
  imports Internal
begin

text \<open>
  The media discoverer of \<open>nsvr_discoverer.hpp/.cpp\<close>: the meta data it keeps, \<open>reset\<close> and \<open>open\<close>.
  The discovery itself is GStreamer's; \<open>media_info\<close> is its result.
\<close>

record discoverer =
  mMediaUri :: string
  d_mWidth :: int32
  d_mHeight :: int32
  mFrameRate :: double
  d_mDuration :: double
  mSampleRate :: uint32
  mBitRate :: uint32
  mHasVideo :: bool
  mHasAudio :: bool
  mSeekable :: bool

text \<open>The member initialisers.\<close>

definition new_discoverer :: discoverer where
  "new_discoverer = \<lparr>mMediaUri = [], d_mWidth = 0, d_mHeight = 0, mFrameRate = 0, d_mDuration = 0,
     mSampleRate = 0, mBitRate = 0, mHasVideo = False, mHasAudio = False, mSeekable = False\<rparr>"

definition Discoverer_reset :: "discoverer \<Rightarrow> discoverer" where
  "Discoverer_reset d =
     (if mMediaUri d \<noteq> [] then d\<lparr>mMediaUri := []\<rparr> else d)
       \<lparr>d_mWidth := 0, d_mHeight := 0, mFrameRate := 0, mHasAudio := False, mHasVideo := False,
        mSeekable := False, d_mDuration := 0, mSampleRate := 0, mBitRate := 0\<rparr>"

text \<open>The bodies of the loops over the stream lists.\<close>

definition scan_video :: "(int32 \<times> int32 \<times> uint32 \<times> uint32) option \<Rightarrow> discoverer \<Rightarrow> discoverer" where
  "scan_video strm d =
     (case strm of
        None \<Rightarrow> d
      | Some (w, h, num, denom) \<Rightarrow>
          d\<lparr>d_mWidth := w, d_mHeight := h,
            mFrameRate := float_divide (int_to_float (uint num)) (int_to_float (uint denom))\<rparr>)"

definition scan_audio :: "(uint32 \<times> uint32) option \<Rightarrow> discoverer \<Rightarrow> discoverer" where
  "scan_audio strm d =
     (case strm of
        None \<Rightarrow> d
      | Some (rate, bits) \<Rightarrow> d\<lparr>mSampleRate := rate, mBitRate := bits\<rparr>)"

text \<open>What \<open>open\<close> stores of a successful discovery.\<close>

definition store_info :: "media_info \<Rightarrow> discoverer \<Rightarrow> 'a world_scheme \<Rightarrow> discoverer \<times> 'a world_scheme" where
  "store_info info d s =
     (let (d, s) =
        (if video_streams info \<noteq> [] then (fold scan_video (video_streams info) (d\<lparr>mHasVideo := True\<rparr>), BindToScope_dtor Scoped_GList s)
         else (d, NSVR_LOG ''No video streams found'' s));
        (d, s) =
        (if audio_streams info \<noteq> [] then (fold scan_audio (audio_streams info) (d\<lparr>mHasAudio := True\<rparr>), BindToScope_dtor Scoped_GList s)
         else (d, NSVR_LOG ''No audio streams found'' s))
      in (d\<lparr>mSeekable := seekable info,
            d_mDuration := int_to_double (uint (duration_ns info)) / GST_SECOND\<rparr>, s))"

text \<open>The objects of the discovery are released at the end of their scopes.\<close>

definition Discoverer_open ::
  "env \<Rightarrow> string \<Rightarrow> discoverer \<Rightarrow> 'a world_scheme \<Rightarrow> bool \<times> discoverer \<times> 'a world_scheme" where
  "Discoverer_open E path d s =
     (let d = Discoverer_reset d in
      if path = [] then (False, d, NSVR_LOG ''Path given to Discoverer is empty.'' s)
      else
        (let (initialized, s) = gstreamerInitialized E s in
         if \<not> initialized then (False, d, NSVR_LOG ''Discoverer requires GStreamer to be initialized.'' s)
         else
           (let (uri, s) = pathToUri E path s; d = d\<lparr>mMediaUri := uri\<rparr> in
            if uri = [] then (False, d, NSVR_LOG ''Unable to convert into a valid URI.'' s)
            else
              (let s = NSVR_LOG ''About to discover media'' s;
                   (created, s) = ask (gst_discoverer_new E) (Gst Discoverer_new) s in
               if \<not> created then (False, d, NSVR_LOG ''Unable to constrcut GstDiscoverer'' s)
               else
                 (let (found, s) = ask (gst_discover_uri E) (Gst (Discoverer_discover_uri (c_str uri))) s in
                  if \<not> found then
                    (False, d, BindToScope_dtor Scoped_GstDiscoverer (NSVR_LOG ''Unable to constrcut GstDiscovererInfo'' s))
                  else
                    (let (result, s) = ask (gst_discover_result E) (Gst Discoverer_query) s;
                         (success, d, s) =
                           (case result of
                              None \<Rightarrow> (False, d, NSVR_LOG ''GstDiscovererResult is not GST_DISCOVERER_OK.'' s)
                            | Some info \<Rightarrow> (let (d, s) = store_info info d s in (True, d, s)))
                     in (success, d, BindToScope_dtor Scoped_GstDiscoverer (BindToScope_dtor Scoped_GstDiscovererInfo s))))))))"

section \<open>Getters\<close>

definition Discoverer_getWidth :: "discoverer \<Rightarrow> int32" where
  "Discoverer_getWidth d = d_mWidth d"

definition Discoverer_getHeight :: "discoverer \<Rightarrow> int32" where
  "Discoverer_getHeight d = d_mHeight d"

definition getFrameRate :: "discoverer \<Rightarrow> double" where
  "getFrameRate d = mFrameRate d"

definition getHasVideo :: "discoverer \<Rightarrow> bool" where
  "getHasVideo d = mHasVideo d"

definition getHasAudio :: "discoverer \<Rightarrow> bool" where
  "getHasAudio d = mHasAudio d"

definition getSeekable :: "discoverer \<Rightarrow> bool" where
  "getSeekable d = mSeekable d"

definition Discoverer_getDuration :: "discoverer \<Rightarrow> double" where
  "Discoverer_getDuration d = d_mDuration d"

definition getSampleRate :: "discoverer \<Rightarrow> uint32" where
  "getSampleRate d = mSampleRate d"

definition getBitRate :: "discoverer \<Rightarrow> uint32" where
  "getBitRate d = mBitRate d"

definition getMediaUri :: "discoverer \<Rightarrow> string" where
  "getMediaUri d = mMediaUri d"

lemmas discoverer_getter_defs =
  Discoverer_getWidth_def Discoverer_getHeight_def getFrameRate_def getHasVideo_def
  getHasAudio_def getSeekable_def Discoverer_getDuration_def getSampleRate_def getBitRate_def
  getMediaUri_def

section \<open>What a discovery leaves behind\<close>

lemma Discoverer_reset_new [simp]: "Discoverer_reset d = new_discoverer"
  by (simp add: Discoverer_reset_def new_discoverer_def)

text \<open>The last stream of the list that has the right type wins.\<close>

definition last_some :: "'a option list \<Rightarrow> 'a option" where
  "last_some xs = (case rev (filter (\<lambda>x. x \<noteq> None) xs) of [] \<Rightarrow> None | x # _ \<Rightarrow> x)"

lemma last_some_snoc [simp]: "last_some (xs @ [x]) = (case x of None \<Rightarrow> last_some xs | Some _ \<Rightarrow> x)"
  by (auto simp: last_some_def split: option.split)

lemma fold_scan_video: "fold scan_video xs d = scan_video (last_some xs) d"
proof (induction xs rule: rev_induct)
  case Nil
  then show ?case by (simp add: last_some_def scan_video_def)
next
  case (snoc x xs)
  then show ?case by (auto simp: scan_video_def split: option.split)
qed

lemma fold_scan_audio: "fold scan_audio xs d = scan_audio (last_some xs) d"
proof (induction xs rule: rev_induct)
  case Nil
  then show ?case by (simp add: last_some_def scan_audio_def)
next
  case (snoc x xs)
  then show ?case by (auto simp: scan_audio_def split: option.split)
qed

text \<open>The meta data a successful discovery stands for.\<close>

definition discovered :: "string \<Rightarrow> media_info \<Rightarrow> discoverer" where
  "discovered uri info =
     (let video = last_some (video_streams info); audio = last_some (audio_streams info) in
      \<lparr>mMediaUri = uri,
       d_mWidth = (case video of None \<Rightarrow> 0 | Some (w, h, n, d) \<Rightarrow> w),
       d_mHeight = (case video of None \<Rightarrow> 0 | Some (w, h, n, d) \<Rightarrow> h),
       mFrameRate = (case video of None \<Rightarrow> 0 | Some (w, h, n, d) \<Rightarrow>
         float_divide (int_to_float (uint n)) (int_to_float (uint d))),
       d_mDuration = int_to_double (uint (duration_ns info)) / GST_SECOND,
       mSampleRate = (case audio of None \<Rightarrow> 0 | Some (r, b) \<Rightarrow> r),
       mBitRate = (case audio of None \<Rightarrow> 0 | Some (r, b) \<Rightarrow> b),
       mHasVideo = (video_streams info \<noteq> []),
       mHasAudio = (audio_streams info \<noteq> []),
       mSeekable = seekable info\<rparr>)"

lemma last_some_Nil [simp]: "last_some [] = None"
  by (simp add: last_some_def)

lemma store_info_discovered:
  "fst (store_info info (new_discoverer\<lparr>mMediaUri := uri\<rparr>) s) = discovered uri info"
  by (auto simp: store_info_def discovered_def new_discoverer_def fold_scan_video fold_scan_audio
      scan_video_def scan_audio_def Let_def split: option.split)

lemma store_info_new:
  "store_info info (new_discoverer\<lparr>mMediaUri := uri\<rparr>) s = (d, s') \<Longrightarrow> d = discovered uri info"
  using store_info_discovered [of info uri s] by simp

lemma new_discoverer_uri [simp]:
  "mMediaUri new_discoverer = []"
  "new_discoverer\<lparr>mMediaUri := []\<rparr> = new_discoverer"
  "mMediaUri (discovered uri info) = uri"
  by (simp_all add: new_discoverer_def discovered_def Let_def)

text \<open>C35: what \<open>Discoverer::open\<close> leaves behind, whatever the object held before. When it answers
  true, every getter tells of the media just discovered: its flags say which kinds of streams the
  media has, and width, height, frame rate, sample rate and bit rate are those of the last
  stream of their kind. When it answers false, all of them are zero or false.\<close>

theorem Discoverer_open_correct:
  assumes "Discoverer_open E path d s = (ok, d', s')"
  shows "if ok then mMediaUri d' \<noteq> [] \<and>
             (\<exists>h info. gst_discover_result E (Gst Discoverer_query # h) = Some info \<and>
               d' = discovered (mMediaUri d') info)
         else d' = new_discoverer\<lparr>mMediaUri := mMediaUri d'\<rparr>"
  using assms
  by (fastforce simp: Discoverer_open_def ask_def Let_def split: if_splits prod.splits option.splits
      dest: store_info_new)

theorem Discoverer_open_correct_witness:
  "\<exists>d s. Discoverer_open calm ''a.mp4'' new_discoverer \<lparr>trace = [], saved_volume = 1\<rparr> = (True, d, s) \<and>
    mMediaUri d \<noteq> [] \<and>
    (\<exists>h info. gst_discover_result calm (Gst Discoverer_query # h) = Some info \<and>
      d = discovered (mMediaUri d) info)"
proof -
  obtain ok d s where o: "Discoverer_open calm ''a.mp4'' new_discoverer \<lparr>trace = [], saved_volume = 1\<rparr> = (ok, d, s)"
    by (metis prod.exhaust)
  then have "ok"
    by (simp add: Discoverer_open_def gstreamerInitialized_def pathToUri_def ask_def c_str_def
        Let_def split: prod.splits)
  then show ?thesis using Discoverer_open_correct [OF o] o by auto
qed

section \<open>The objects of a discovery\<close>

datatype discovery_object = O_discoverer | O_info

text \<open>The objects alive after a history, the youngest first; \<open>None\<close> when one was released out of turn,
  or a list of streams without its info.\<close>

fun alive :: "env \<Rightarrow> event list \<Rightarrow> discovery_object list option" where
  "alive E [] = Some []"
| "alive E (e # h) =
     (case alive E h of
        None \<Rightarrow> None
      | Some objs \<Rightarrow>
          (case e of
             Gst Discoverer_new \<Rightarrow> Some (if gst_discoverer_new E (e # h) then O_discoverer # objs else objs)
           | Gst (Discoverer_discover_uri u) \<Rightarrow> Some (if gst_discover_uri E (e # h) then O_info # objs else objs)
           | Gst Stream_list_free \<Rightarrow> (case objs of O_info # _ \<Rightarrow> Some objs | _ \<Rightarrow> None)
           | Gst Info_unref \<Rightarrow> (case objs of O_info # rest \<Rightarrow> Some rest | _ \<Rightarrow> None)
           | Gst Discoverer_unref \<Rightarrow> (case objs of O_discoverer # rest \<Rightarrow> Some rest | _ \<Rightarrow> None)
           | _ \<Rightarrow> Some objs))"

lemma alive_gstreamerInitialized: "gstreamerInitialized E s = (ok, t) \<Longrightarrow> alive E' (trace t) = alive E' (trace s)"
  by (auto simp: gstreamerInitialized_def ask_def split: if_splits option.split)

lemma alive_pathToUri: "pathToUri E path s = (uri, t) \<Longrightarrow> alive E' (trace t) = alive E' (trace s)"
  by (auto simp: pathToUri_def ask_def split: if_splits option.splits)

lemma alive_store_info:
  "store_info info d s = (d', t) \<Longrightarrow> alive E (trace s) = Some (O_info # objs) \<Longrightarrow>
     alive E (trace t) = Some (O_info # objs)"
  by (auto simp: store_info_def Let_def split: if_splits)



end
