(* ===== verification/Number_Text.thy ===== *)
theory Number_Text
  imports Doubles
begin

text \<open>
  The conversions of the C++ standard library between numbers and text that the packet format
  uses, in the "C" locale: \<open>std::stoi\<close>, \<open>std::stoull\<close>, \<open>std::stod\<close> and \<open>operator<<\<close> on
  integers and doubles (six significant digits, as \<open>%g\<close>). An exception is the left summand of
  the result. The lemmas say that what is written is read back, exactly for integers and up to
  six significant decimal digits for doubles.
\<close>

section \<open>Characters\<close>

definition is_digit :: "char \<Rightarrow> bool" where
  [std_defs]: "is_digit c \<longleftrightarrow> (48::int) \<le> of_char c \<and> of_char c \<le> (57::int)"

definition is_space :: "char \<Rightarrow> bool" where
  [std_defs]: "is_space c \<longleftrightarrow> of_char c = (32::int) \<or> 9 \<le> (of_char c :: int) \<and> of_char c \<le> (13::int)"

definition to_lower :: "char \<Rightarrow> char" where
  [std_defs]: "to_lower c =
     (if (65::int) \<le> of_char c \<and> of_char c \<le> (90::int) then char_of (of_char c + 32 :: int) else c)"

definition is_xdigit :: "char \<Rightarrow> bool" where
  [std_defs]: "is_xdigit c \<longleftrightarrow> is_digit c \<or> (97::int) \<le> of_char (to_lower c) \<and> of_char (to_lower c) \<le> (102::int)"

definition digit_val :: "char \<Rightarrow> int" where
  [std_defs]: "digit_val c = of_char c - 48"

definition xdigit_val :: "char \<Rightarrow> int" where
  [std_defs]: "xdigit_val c = (if is_digit c then digit_val c else of_char (to_lower c) - 87)"

definition digits_val :: "string \<Rightarrow> int" where
  [std_defs]: "digits_val ds = foldl (\<lambda>n c. n * 10 + digit_val c) 0 ds"

definition xdigits_val :: "string \<Rightarrow> int" where
  [std_defs]: "xdigits_val ds = foldl (\<lambda>n c. n * 16 + xdigit_val c) 0 ds"

section \<open>Reading\<close>

datatype std_exn = Invalid_argument | Out_of_range

text \<open>The common start of the \<open>strto\<close> functions: white space, then an optional sign (\<open>True\<close> for
  minus).\<close>

definition skip_space :: "string \<Rightarrow> string" where
  [std_defs]: "skip_space s = dropWhile is_space s"

fun take_sign :: "string \<Rightarrow> bool \<times> string" where
  "take_sign [] = (False, [])"
| "take_sign (c # s) =
     (if c = CHR ''-'' then (True, s) else if c = CHR ''+'' then (False, s) else (False, c # s))"

definition stoi :: "string \<Rightarrow> std_exn + int32" where
  [std_defs]: "stoi str =
     (let (neg, s) = take_sign (skip_space (c_str str));
          ds = takeWhile is_digit s;
          v = (if neg then - digits_val ds else digits_val ds)
      in if ds = [] then Inl Invalid_argument
         else if - (2 ^ 31) \<le> v \<and> v < 2 ^ 31 then Inr (word_of_int v) else Inl Out_of_range)"

text \<open>\<open>stoull\<close> accepts a minus sign and negates modulo \<open>2 ^ 64\<close>.\<close>

definition stoull :: "string \<Rightarrow> std_exn + uint64" where
  [std_defs]: "stoull str =
     (let (neg, s) = take_sign (skip_space (c_str str));
          ds = takeWhile is_digit s;
          v = digits_val ds
      in if ds = [] then Inl Invalid_argument
         else if v < 2 ^ 64 then Inr (word_of_int (if neg then - v else v)) else Inl Out_of_range)"

text \<open>
  \<open>stod\<close>: a decimal or hexadecimal floating literal, \<open>inf\<close> or \<open>nan\<close> in any case; trailing
  characters are ignored. The exact value of the literal is rounded once. As \<open>strtod\<close> reports
  a range error when the result overflows or is inexact and tiny, \<open>stod\<close> throws then.
\<close>

definition scan_exp :: "char \<Rightarrow> string \<Rightarrow> int" where
  [std_defs]: "scan_exp mark s =
     (case s of
        [] \<Rightarrow> 0
      | c # t \<Rightarrow>
          if to_lower c = mark then
            (let (neg, u) = take_sign t; ds = takeWhile is_digit u
             in if neg then - digits_val ds else digits_val ds)
          else 0)"

text \<open>The digits before and after the point, and what follows them.\<close>

definition scan_mantissa :: "(char \<Rightarrow> bool) \<Rightarrow> string \<Rightarrow> string \<times> string \<times> string" where
  [std_defs]: "scan_mantissa p s =
     (case dropWhile p s of
        [] \<Rightarrow> (takeWhile p s, [], [])
      | c # t \<Rightarrow>
          if c = CHR ''.'' then (takeWhile p s, takeWhile p t, dropWhile p t)
          else (takeWhile p s, [], c # t))"

definition scan_decimal :: "string \<Rightarrow> rat option" where
  [std_defs]: "scan_decimal s =
     (let (ip, fp, r) = scan_mantissa is_digit s
      in if ip = [] \<and> fp = [] then None
         else Some (of_int (digits_val (ip @ fp)) *
                    10 powi (scan_exp CHR ''e'' r - int (length fp))))"

definition scan_hex :: "string \<Rightarrow> rat option" where
  [std_defs]: "scan_hex s =
     (let (ip, fp, r) = scan_mantissa is_xdigit s
      in if ip = [] \<and> fp = [] then None
         else Some (of_int (xdigits_val (ip @ fp)) *
                    2 powi (scan_exp CHR ''p'' r - 4 * int (length fp))))"

text \<open>A hexadecimal prefix counts only when a hexadecimal digit follows; otherwise the literal is
  the \<open>0\<close> before the \<open>x\<close>.\<close>

definition scan_number :: "string \<Rightarrow> rat option" where
  [std_defs]: "scan_number s =
     (case s of
        c # x # t \<Rightarrow>
          if c = CHR ''0'' \<and> to_lower x = CHR ''x'' \<and> scan_hex t \<noteq> None then scan_hex t
          else scan_decimal s
      | _ \<Rightarrow> scan_decimal s)"

definition prefix_ci :: "string \<Rightarrow> string \<Rightarrow> bool" where
  [std_defs]: "prefix_ci p s \<longleftrightarrow> map to_lower (take (length p) s) = p"

definition strtod_erange :: "rat \<Rightarrow> bool" where
  [std_defs]: "strtod_erange r \<longleftrightarrow>
     r \<noteq> 0 \<and>
     (DBL_OVERFLOW \<le> round_to 53 (- 1074) r \<or>
      round_to 53 (ilog 2 r - 52) r < DBL_MIN \<and> round_to 53 (- 1074) r \<noteq> r)"

definition stod :: "string \<Rightarrow> std_exn + double" where
  [std_defs]: "stod str =
     (let (neg, s) = take_sign (skip_space (c_str str))
      in if prefix_ci ''inf'' s then Inr (Infty neg)
         else if prefix_ci ''nan'' s then Inr NaN
         else (case scan_number s of
                 None \<Rightarrow> Inl Invalid_argument
               | Some r \<Rightarrow>
                   if strtod_erange r then Inl Out_of_range else Inr (to_double neg r)))"

section \<open>Writing\<close>

definition digit_char :: "int \<Rightarrow> char" where
  [std_defs]: "digit_char d = char_of (48 + d)"

function show_digits :: "int \<Rightarrow> string" where
  "show_digits n =
     (if n < 10 then [digit_char n] else show_digits (n div 10) @ [digit_char (n mod 10)])"
  by pat_completeness auto
termination
  by (relation "measure nat") (auto simp: int_div_less_self)

declare show_digits.simps [simp del]

definition show_int :: "int \<Rightarrow> string" where
  [std_defs]: "show_int i = (if i < 0 then CHR ''-'' # show_digits (- i) else show_digits i)"

text \<open>
  \<open>%g\<close> with six significant digits: \<open>sci6 r = (m, x)\<close> is the six-digit decimal
  \<open>m / 10 ^ 5 * 10 ^ x\<close> nearest to \<open>r > 0\<close>.
\<close>

definition sci6 :: "rat \<Rightarrow> int \<times> int" where
  [std_defs]: "sci6 r =
     (let x = ilog 10 r; m = round_half_even (r / 10 powi (x - 5))
      in if m = 1000000 then (100000, x + 1) else (m, x))"

definition strip_zeros :: "string \<Rightarrow> string" where
  [std_defs]: "strip_zeros ds = rev (dropWhile (\<lambda>c. c = CHR ''0'') (rev ds))"

definition show_fraction :: "string \<Rightarrow> string" where
  [std_defs]: "show_fraction ds = (let t = strip_zeros ds in if t = [] then [] else CHR ''.'' # t)"

definition show_exp :: "int \<Rightarrow> string" where
  [std_defs]: "show_exp x =
     CHR ''e'' # (if x < 0 then CHR ''-'' else CHR ''+'') #
     (if \<bar>x\<bar> < 10 then CHR ''0'' # show_digits \<bar>x\<bar> else show_digits \<bar>x\<bar>)"

definition show_sci :: "int \<Rightarrow> int \<Rightarrow> string" where
  [std_defs]: "show_sci m x =
     (let ds = show_digits m
      in if x < - 4 \<or> 6 \<le> x then take 1 ds @ show_fraction (drop 1 ds) @ show_exp x
         else if 0 \<le> x then take (nat x + 1) ds @ show_fraction (drop (nat x + 1) ds)
         else CHR ''0'' # show_fraction (replicate (nat (- x) - 1) CHR ''0'' @ ds))"

definition show_sign :: "bool \<Rightarrow> string" where
  [std_defs]: "show_sign s = (if s then ''-'' else '''')"

fun show_double :: "double \<Rightarrow> string" where
  "show_double NaN = ''nan''"
| "show_double (Infty s) = show_sign s @ ''inf''"
| "show_double (Fin s a) =
     show_sign s @ (if a = 0 then ''0'' else (let (m, x) = sci6 a in show_sci m x))"

section \<open>Digits\<close>

lemma digit_char [simp]:
  assumes "0 \<le> d" and "d < 10"
  shows "is_digit (digit_char d)" and "digit_val (digit_char d) = d"
  using assms by (auto simp: is_digit_def digit_char_def digit_val_def)

lemma is_digit_simps [simp]:
  "is_digit CHR ''0''" "\<not> is_digit CHR ''.''" "\<not> is_digit CHR ''e''" "\<not> is_digit CHR ''|''"
  "\<not> is_digit CHR ''-''" "\<not> is_digit CHR ''+''" "\<not> is_digit NUL" "\<not> is_digit CHR ''x''"
  by (simp_all add: is_digit_def)

lemma is_digit_not:
  assumes "is_digit c"
  shows "c \<noteq> CHR ''-''" and "c \<noteq> CHR ''+''" and "c \<noteq> NUL" and "c \<noteq> CHR ''|''" and "\<not> is_space c"
    and "to_lower c = c"
  using assms by (auto simp: is_digit_def is_space_def to_lower_def)

lemma digits_val_snoc [simp]: "digits_val (ds @ [c]) = digits_val ds * 10 + digit_val c"
  by (simp add: digits_val_def)

lemma digits_val_Nil [simp]: "digits_val [] = 0"
  by (simp add: digits_val_def)

lemma digits_val_append: "digits_val (ds @ es) = digits_val ds * 10 ^ length es + digits_val es"
  by (induction es rule: rev_induct) (simp_all add: algebra_simps flip: append_assoc)

lemma digits_val_zeros [simp]: "digits_val (replicate n CHR ''0'') = 0"
proof (induction n)
  case (Suc n)
  have "replicate (Suc n) CHR ''0'' = replicate n CHR ''0'' @ [CHR ''0'']"
    by (simp add: replicate_append_same)
  then show ?case using Suc by (simp add: digit_val_def del: replicate_Suc)
qed simp

lemma show_digits_spec:
  "0 \<le> n \<Longrightarrow> digits_val (show_digits n) = n \<and> show_digits n \<noteq> [] \<and> (\<forall>c \<in> set (show_digits n). is_digit c)"
proof (induction n rule: show_digits.induct)
  case (1 n)
  show ?case
  proof (cases "n < 10")
    case True
    then show ?thesis using 1(2) digits_val_snoc [of "[]"] by (simp add: show_digits.simps [of n])
  next
    case False
    then show ?thesis using 1 by (simp add: show_digits.simps [of n])
  qed
qed

lemma show_digits_facts [simp]:
  assumes "0 \<le> n"
  shows "digits_val (show_digits n) = n" and "show_digits n \<noteq> []"
    and "takeWhile is_digit (show_digits n) = show_digits n"
  using show_digits_spec [OF assms] by (auto simp: takeWhile_eq_all_conv)

lemma show_digits_is_digit: "0 \<le> n \<Longrightarrow> c \<in> set (show_digits n) \<Longrightarrow> is_digit c"
  using show_digits_spec by blast

lemma show_digits_length:
  "10 ^ k \<le> n \<Longrightarrow> n < 10 ^ Suc k \<Longrightarrow> length (show_digits n) = Suc k"
proof (induction k arbitrary: n)
  case 0
  then show ?case by (simp add: show_digits.simps [of n])
next
  case (Suc k)
  have "(1::int) \<le> 10 ^ k" by simp
  then have n: "10 \<le> n" using Suc.prems(1) unfolding power_Suc by linarith
  have "10 ^ k \<le> n div 10" using Suc.prems(1) by simp
  moreover have "n div 10 < 10 ^ Suc k" using Suc.prems(2) by (simp add: int_div_less_iff)
  ultimately have "length (show_digits (n div 10)) = Suc k" by (rule Suc.IH)
  then show ?case using n by (simp add: show_digits.simps [of n])
qed

lemma show_int_chars:
  "c \<in> set (show_int i) \<Longrightarrow> is_digit c \<or> c = CHR ''-''"
  by (auto simp: show_int_def intro: show_digits_is_digit [of "- i"] show_digits_is_digit [of i]
      split: if_splits)

lemma show_int_nonempty [simp]: "show_int i \<noteq> []"
  by (simp add: show_int_def)

section \<open>Integers are read back exactly\<close>

text \<open>What every \<open>strto\<close> function sees of a sign followed by something that is neither white
  space nor a sign.\<close>

lemma skip_space_nonspace [simp]: "s = [] \<or> \<not> is_space (hd s) \<Longrightarrow> skip_space s = s"
  by (cases s) (auto simp: skip_space_def)

lemma take_sign_show_sign:
  "s \<noteq> [] \<Longrightarrow> hd s \<noteq> CHR ''-'' \<Longrightarrow> hd s \<noteq> CHR ''+'' \<Longrightarrow> take_sign (show_sign b @ s) = (b, s)"
  by (cases s) (auto simp: show_sign_def)

lemma show_int_alt: "show_int i = show_sign (i < 0) @ show_digits \<bar>i\<bar>"
  by (simp add: show_int_def show_sign_def)

lemma strto_prefix_show_int: "take_sign (skip_space (c_str (show_int i))) = (i < 0, show_digits \<bar>i\<bar>)"
proof -
  obtain c t where ct: "show_digits \<bar>i\<bar> = c # t" "is_digit c"
    using show_digits_spec [of "\<bar>i\<bar>"] by (cases "show_digits \<bar>i\<bar>") auto
  have "NUL \<notin> set (show_int i)" using show_int_chars [of NUL i] by auto
  then have "skip_space (c_str (show_int i)) = show_int i"
    using ct is_digit_not [of c] by (auto simp: show_int_alt show_sign_def is_space_def)
  then show ?thesis using ct is_digit_not [of c] by (simp add: show_int_alt take_sign_show_sign)
qed

lemma stoi_show_int: "stoi (show_int (sint w)) = Inr w"
proof -
  have "- (2 ^ 31) \<le> sint w" "sint w < 2 ^ 31"
    using sint_range_size [of w] by (simp_all add: word_size)
  then show ?thesis by (simp add: stoi_def strto_prefix_show_int Let_def)
qed

lemma stoull_show_int: "stoull (show_int (uint w)) = Inr w"
  using uint_bounded [of w] by (simp add: stoull_def strto_prefix_show_int Let_def)

section \<open>Doubles are read back to six significant digits\<close>

text \<open>The six-digit decimal nearest to a magnitude, and the double a text of it denotes.\<close>

definition dec6 :: "rat \<Rightarrow> rat" where
  "dec6 a = (let (m, x) = sci6 a in of_int m * 10 powi (x - 5))"

fun quantise :: "double \<Rightarrow> double" where
  "quantise (Fin s a) = (if a = 0 then Fin s 0 else to_double s (dec6 a))"
| "quantise d = d"

text \<open>Doubles whose text is neither subnormal nor close to the overflow threshold.\<close>

fun printable :: "double \<Rightarrow> bool" where
  "printable (Fin s a) \<longleftrightarrow> a = 0 \<or> 2 * DBL_MIN \<le> a \<and> 2 * a \<le> DBL_OVERFLOW"
| "printable d \<longleftrightarrow> True"

lemma sci6_raw:
  assumes "0 < a"
  shows "100000 \<le> round_half_even (a / 10 powi (ilog 10 a - 5))"
    and "round_half_even (a / 10 powi (ilog 10 a - 5)) \<le> 1000000"
proof -
  let ?x = "ilog 10 a"
  have b: "10 powi ?x \<le> a" "a < 10 powi (?x + 1)"
    using ilog_bounds [of 10 a] assms by simp_all
  have "10 powi ?x = 100000 * (10::rat) powi (?x - 5)"
    and "10 powi (?x + 1) = 1000000 * (10::rat) powi (?x - 5)"
    by (simp_all add: power_int_diff power_int_add)
  with b have "of_int 100000 \<le> a / 10 powi (?x - 5)" "a / 10 powi (?x - 5) \<le> of_int 1000000"
    by (simp_all add: le_divide_eq divide_le_eq)
  then show "100000 \<le> round_half_even (a / 10 powi (?x - 5))"
    and "round_half_even (a / 10 powi (?x - 5)) \<le> 1000000"
    by (blast intro: round_half_even_ge round_half_even_le)+
qed

lemma sci6_digits:
  assumes "0 < a" and "sci6 a = (m, x)"
  shows "100000 \<le> m" and "m < 1000000"
  using assms sci6_raw [OF assms(1)] by (auto simp: sci6_def Let_def split: if_splits)

lemma dec6_eq:
  "dec6 a = of_int (round_half_even (a / 10 powi (ilog 10 a - 5))) * 10 powi (ilog 10 a - 5)"
proof -
  have "(10::rat) powi (ilog 10 a - 4) = 10 * 10 powi (ilog 10 a - 5)"
    by (simp add: power_int_diff)
  then show ?thesis by (simp add: dec6_def sci6_def Let_def)
qed

lemma dec6_error:
  assumes "0 < a"
  shows "\<bar>dec6 a - a\<bar> \<le> a / 200000"
proof -
  let ?u = "(10::rat) powi (ilog 10 a - 5)"
  have "dec6 a - a = (of_int (round_half_even (a / ?u)) - a / ?u) * ?u"
    by (simp add: dec6_eq left_diff_distrib)
  then have "\<bar>dec6 a - a\<bar> = \<bar>of_int (round_half_even (a / ?u)) - a / ?u\<bar> * ?u"
    by (simp add: abs_mult)
  also have "\<dots> \<le> 1 / 2 * ?u" by (rule mult_right_mono [OF round_half_even_error]) simp
  also have "\<dots> = 10 powi ilog 10 a / 200000" by (simp add: power_int_diff)
  also have "\<dots> \<le> a / 200000"
    using ilog_bounds(1) [of 10 a] assms by (simp add: divide_right_mono)
  finally show ?thesis .
qed

lemma dec6_pos: "0 < a \<Longrightarrow> 0 < dec6 a"
  using dec6_error [of a] by (simp add: abs_if split: if_splits)

subsection \<open>Scanning what was written\<close>

lemma strip_zeros_decomp: "\<exists>k. ds = strip_zeros ds @ replicate k CHR ''0''"
proof -
  let ?z = "\<lambda>c. c = CHR ''0''"
  have "ds = rev (takeWhile ?z (rev ds) @ dropWhile ?z (rev ds))" by simp
  also have "\<dots> = strip_zeros ds @ rev (takeWhile ?z (rev ds))"
    by (simp only: rev_append strip_zeros_def)
  also have "\<dots> = strip_zeros ds @ replicate (length (takeWhile ?z (rev ds))) CHR ''0''"
    by (subst takeWhile_eq_replicate) simp
  finally show ?thesis ..
qed

lemma strip_zeros_subset: "c \<in> set (strip_zeros ds) \<Longrightarrow> c \<in> set ds"
  using set_dropWhileD by (fastforce simp: strip_zeros_def)

definition no_digit_head :: "string \<Rightarrow> bool" where
  "no_digit_head s \<longleftrightarrow> s = [] \<or> \<not> is_digit (hd s) \<and> hd s \<noteq> CHR ''.''"

lemma scan_mantissa_digits:
  assumes "\<forall>c \<in> set ip. is_digit c" and "\<forall>c \<in> set fd. is_digit c" and "no_digit_head t"
  shows "scan_mantissa is_digit (ip @ show_fraction fd @ t) = (ip, strip_zeros fd, t)"
proof -
  have z: "\<forall>c \<in> set (strip_zeros fd). is_digit c" using assms(2) strip_zeros_subset by blast
  show ?thesis
  proof (cases "strip_zeros fd = []")
    case True
    have "t = [] \<or> \<not> is_digit (hd t)" using assms(3) by (auto simp: no_digit_head_def)
    then have "takeWhile is_digit (ip @ t) = ip" "dropWhile is_digit (ip @ t) = t"
      using assms(1) by (blast intro: takeWhile_append_stop dropWhile_append_stop)+
    then show ?thesis using True assms(3)
      using assms(1) by (cases t) (simp_all add: scan_mantissa_def show_fraction_def no_digit_head_def scan_stop)
  next
    case False
    have "t = [] \<or> \<not> is_digit (hd t)" using assms(3) by (auto simp: no_digit_head_def)
    then have "takeWhile is_digit (strip_zeros fd @ t) = strip_zeros fd"
      "dropWhile is_digit (strip_zeros fd @ t) = t"
      using z by (blast intro: takeWhile_append_stop dropWhile_append_stop)+
    moreover have "takeWhile is_digit (ip @ CHR ''.'' # r) = ip"
      "dropWhile is_digit (ip @ CHR ''.'' # r) = CHR ''.'' # r" for r
      using assms(1) by (simp_all add: scan_stop)
    ultimately show ?thesis using False
      by (simp add: scan_mantissa_def show_fraction_def Let_def del: takeWhile_append dropWhile_append)
  qed
qed

lemma scan_decimal_digits:
  assumes "ip \<noteq> []" and "\<forall>c \<in> set ip. is_digit c" and "\<forall>c \<in> set fd. is_digit c" and "no_digit_head t"
  shows "scan_decimal (ip @ show_fraction fd @ t) =
     Some (of_int (digits_val (ip @ fd)) * 10 powi (scan_exp CHR ''e'' t - int (length fd)))"
proof -
  let ?z = "strip_zeros fd"
  obtain k where fd: "fd = ?z @ replicate k CHR ''0''" using strip_zeros_decomp [of fd] by blast
  have "digits_val (ip @ fd) = digits_val (ip @ ?z) * 10 ^ k"
    by (subst fd) (simp add: digits_val_append algebra_simps power_add)
  moreover have "int (length fd) = int (length ?z) + int k" by (subst fd) simp
  ultimately show ?thesis using assms
    by (simp add: scan_decimal_def scan_mantissa_digits Let_def power_int_diff power_int_add)
qed

lemma scan_exp_show_exp [simp]: "scan_exp CHR ''e'' (show_exp x) = x"
proof -
  have d: "show_digits n \<noteq> []" "takeWhile is_digit (show_digits n) = show_digits n"
    "digits_val (CHR ''0'' # show_digits n) = n" "digits_val (show_digits n) = n" if "0 \<le> n" for n
    using that digits_val_append [of "''0''" "show_digits n"] digits_val_snoc [of "[]" "CHR ''0''"]
    by (simp_all add: digit_val_def)
  show ?thesis by (auto simp: scan_exp_def show_exp_def to_lower_def Let_def d)
qed

lemma no_digit_head_simps [simp]: "no_digit_head []" "no_digit_head (show_exp x)"
  by (simp_all add: no_digit_head_def show_exp_def)

subsection \<open>The three layouts of \<open>%g\<close>\<close>

lemma not_hex:
  assumes "c \<noteq> CHR ''0'' \<or> t = [] \<or> to_lower (hd t) \<noteq> CHR ''x''"
  shows "scan_number (c # t) = scan_decimal (c # t)"
  using assms by (cases t) (auto simp: scan_number_def)

lemma show_fraction_hd: "show_fraction fd = [] \<or> hd (show_fraction fd) = CHR ''.''"
  by (simp add: show_fraction_def Let_def)

lemma show_exp_hd: "show_exp x \<noteq> []" "hd (show_exp x) = CHR ''e''"
  by (simp_all add: show_exp_def)

lemma not_x_simps: "to_lower CHR ''.'' \<noteq> CHR ''x''" "to_lower CHR ''e'' \<noteq> CHR ''x''"
  by (simp_all add: to_lower_def)

lemma digit_not_x: "is_digit c \<Longrightarrow> to_lower c \<noteq> CHR ''x''"
  by (auto simp: is_digit_def to_lower_def)

lemma scan_number_digits:
  assumes "ip \<noteq> []" and "\<forall>c \<in> set ip. is_digit c" and "\<forall>c \<in> set fd. is_digit c"
    and "t = [] \<or> (\<exists>x. t = show_exp x)"
  shows "scan_number (ip @ show_fraction fd @ t) =
     Some (of_int (digits_val (ip @ fd)) * 10 powi (scan_exp CHR ''e'' t - int (length fd)))"
proof -
  obtain c ip' where ip: "ip = c # ip'" using assms(1) by (cases ip) auto
  have "ip' @ show_fraction fd @ t = [] \<or> to_lower (hd (ip' @ show_fraction fd @ t)) \<noteq> CHR ''x''"
  proof (cases ip')
    case (Cons d u)
    then show ?thesis using assms(2) ip digit_not_x by simp
  next
    case Nil
    have "t = [] \<or> hd t = CHR ''e''" using assms(4) show_exp_hd(2) by blast
    then show ?thesis using Nil show_fraction_hd [of fd] not_x_simps
      by (cases "show_fraction fd") auto
  qed
  then have "scan_number (ip @ show_fraction fd @ t) = scan_decimal (ip @ show_fraction fd @ t)"
    using not_hex [of c "ip' @ show_fraction fd @ t"] ip by simp
  moreover have "no_digit_head t" using assms(4) by auto
  ultimately show ?thesis using scan_decimal_digits [OF assms(1-3)] by simp
qed

lemma scan_number_show_sci:
  assumes "100000 \<le> m" and "m < 1000000"
  shows "scan_number (show_sci m x) = Some (of_int m * 10 powi (x - 5))"
proof -
  let ?ds = "show_digits m"
  have len: "length ?ds = 6" using show_digits_length [of 5 m] assms by simp
  have dig: "\<forall>c \<in> set ?ds. is_digit c" and val: "digits_val ?ds = m"
    using show_digits_spec [of m] assms by auto
  have part: "\<forall>c \<in> set (take k ?ds). is_digit c" "\<forall>c \<in> set (drop k ?ds). is_digit c" for k
    using dig by (auto dest: in_set_takeD in_set_dropD)
  consider "x < - 4 \<or> 6 \<le> x" | "0 \<le> x" "x < 6" | "- 4 \<le> x" "x < 0" by linarith
  then show ?thesis
  proof cases
    case 1
    have "take 1 ?ds \<noteq> []" using len by auto
    from scan_number_digits [OF this part(1) part(2) [of 1], of "show_exp x"] show ?thesis
      using 1 len val by (fastforce simp: show_sci_def Let_def)
  next
    case 2
    have "take (nat x + 1) ?ds \<noteq> []" using len by auto
    from scan_number_digits [OF this part(1) part(2) [of "nat x + 1"], of "[]"] show ?thesis
      using 2 len val by (simp add: show_sci_def Let_def scan_exp_def)
  next
    case 3
    let ?fd = "replicate (nat (- x) - 1) CHR ''0'' @ ?ds"
    have fd: "\<forall>c \<in> set ?fd. is_digit c" using dig by auto
    have zero: "''0'' \<noteq> []" "\<forall>c \<in> set ''0''. is_digit c" by simp_all
    have "scan_number (''0'' @ show_fraction ?fd @ []) =
      Some (of_int (digits_val (''0'' @ ?fd)) * 10 powi (scan_exp CHR ''e'' [] - int (length ?fd)))"
      by (rule scan_number_digits [OF zero fd]) simp
    moreover have "''0'' @ ?fd = replicate (nat (- x)) CHR ''0'' @ ?ds"
    proof -
      have "nat (- x) = Suc (nat (- x) - 1)" using 3 by simp
      then have "replicate (nat (- x)) CHR ''0'' = CHR ''0'' # replicate (nat (- x) - 1) CHR ''0''"
        by (metis replicate_Suc)
      then show ?thesis by (simp only: append_Cons append_Nil)
    qed
    then have "digits_val (''0'' @ ?fd) = m"
      using val digits_val_append [of "replicate (nat (- x)) CHR ''0''" ?ds]
      by (simp only: digits_val_zeros mult_zero_left add_0_left)
    moreover have "scan_exp CHR ''e'' [] - int (length ?fd) = x - 5" using 3 len by (simp add: scan_exp_def)
    moreover have "show_sci m x = ''0'' @ show_fraction ?fd @ []" using 3 by (simp add: show_sci_def Let_def)
    ultimately show ?thesis by (simp only:)
  qed
qed

text \<open>The first character of a written magnitude is a digit.\<close>

lemma show_sci_hd:
  assumes "100000 \<le> m" and "m < 1000000"
  shows "\<exists>c t. show_sci m x = c # t \<and> is_digit c"
proof -
  have "show_digits m \<noteq> []" "\<forall>c \<in> set (show_digits m). is_digit c"
    using show_digits_spec [of m] assms by auto
  then obtain c t where "show_digits m = c # t" "is_digit c" by (cases "show_digits m") auto
  then show ?thesis by (auto simp: show_sci_def Let_def)
qed

subsection \<open>Reading a double back\<close>

lemma round_to_close:
  assumes "0 < r" and "2 powi (emin + 52) \<le> r"
  shows "\<bar>round_to 53 emin r - r\<bar> \<le> r / 10000000"
proof -
  have "\<bar>round_to 53 emin r - r\<bar> \<le> r / 2 ^ 53"
    using round_to_rel_error [OF assms(1), of 53 emin] assms(2) by (simp add: add.commute)
  also have "\<dots> \<le> r / 10000000" using assms(1) by (simp add: frac_le)
  finally show ?thesis .
qed

lemma DBL_limits: "DBL_MIN = 2 powi (- 1074 + 52)" "0 < DBL_MIN" "0 < DBL_OVERFLOW"
  by (simp_all add: DBL_MIN_def DBL_OVERFLOW_def)

lemma not_erange_dec6:
  assumes "2 * DBL_MIN \<le> a" and "2 * a \<le> DBL_OVERFLOW"
  shows "\<not> strtod_erange (dec6 a)"
proof -
  have a: "0 < a" using assms(1) DBL_limits(2) by linarith
  have e: "\<bar>dec6 a - a\<bar> \<le> a / 200000" by (rule dec6_error [OF a])
  have pos: "0 < dec6 a" by (rule dec6_pos [OF a])
  have lo: "2 powi (- 1074 + 52) \<le> dec6 a"
    using e assms(1) DBL_limits(1,2) by linarith
  have "2 powi (ilog 2 (dec6 a) - 52 + 52) \<le> dec6 a"
    using ilog_bounds(1) [of 2 "dec6 a"] pos by simp
  from round_to_close [OF pos lo] round_to_close [OF pos this] e assms DBL_limits(2)
  have "round_to 53 (- 1074) (dec6 a) < DBL_OVERFLOW"
    and "DBL_MIN \<le> round_to 53 (ilog 2 (dec6 a) - 52) (dec6 a)"
    by linarith+
  then show ?thesis by (simp add: strtod_erange_def)
qed

text \<open>What \<open>stod\<close> makes of a sign and a text that starts with a digit.\<close>

lemma prefix_ci_digit:
  assumes "is_digit c"
  shows "\<not> prefix_ci ''inf'' (c # t)" and "\<not> prefix_ci ''nan'' (c # t)"
  using assms is_digit_not(6) [OF assms] by (auto simp: prefix_ci_def is_digit_def)

lemma stod_digit:
  assumes "is_digit c" and "NUL \<notin> set t"
  shows "stod (show_sign s @ c # t) =
    (case scan_number (c # t) of
       None \<Rightarrow> Inl Invalid_argument
     | Some r \<Rightarrow> if strtod_erange r then Inl Out_of_range else Inr (to_double s r))"
proof -
  note d = is_digit_not [OF assms(1)]
  have "c_str (show_sign s @ c # t) = show_sign s @ c # t"
    using assms(2) d by (simp add: show_sign_def)
  moreover have "skip_space (show_sign s @ c # t) = show_sign s @ c # t"
    using d by (simp add: show_sign_def is_space_def)
  ultimately show ?thesis
    using d assms by (simp add: stod_def take_sign_show_sign prefix_ci_digit)
qed

text \<open>The characters a number is written with: no separator and no NUL among them.\<close>

definition number_char :: "char \<Rightarrow> bool" where
  "number_char c \<longleftrightarrow> is_digit c \<or> c \<in> set ''+-.einfa''"

lemma number_char_simps [simp]:
  "number_char CHR ''+''" "number_char CHR ''-''" "number_char CHR ''.''" "number_char CHR ''e''"
  "number_char CHR ''i''" "number_char CHR ''n''" "number_char CHR ''f''" "number_char CHR ''a''"
  "number_char CHR ''0''"
  by (simp_all add: number_char_def is_digit_def)

lemma number_char_show_sign: "c \<in> set (show_sign s) \<Longrightarrow> number_char c"
  by (simp add: show_sign_def split: if_splits)

lemma number_char_show_digits: "0 \<le> n \<Longrightarrow> c \<in> set (show_digits n) \<Longrightarrow> number_char c"
  using show_digits_is_digit by (auto simp: number_char_def)

lemma number_char_show_fraction:
  "\<forall>c \<in> set ds. number_char c \<Longrightarrow> c \<in> set (show_fraction ds) \<Longrightarrow> number_char c"
  using strip_zeros_subset [of c ds] by (auto simp: show_fraction_def Let_def split: if_splits)

lemma number_char_show_exp: "c \<in> set (show_exp x) \<Longrightarrow> number_char c"
  using number_char_show_digits [of "\<bar>x\<bar>" c] by (auto simp: show_exp_def split: if_splits)

lemma number_char_show_sci:
  assumes "0 \<le> m" and "c \<in> set (show_sci m x)"
  shows "number_char c"
proof -
  let ?ds = "show_digits m"
  have d: "\<forall>c \<in> set ?ds. number_char c" using number_char_show_digits [OF assms(1)] by blast
  then have part: "\<forall>c \<in> set (take k ?ds). number_char c" "\<forall>c \<in> set (drop k ?ds). number_char c" for k
    by (blast dest: in_set_takeD in_set_dropD)+
  have z: "\<forall>c \<in> set (replicate k CHR ''0'' @ ?ds). number_char c" for k using d by auto
  have fr: "number_char c" if "c \<in> set (show_fraction (drop k ?ds))" for k
    by (rule number_char_show_fraction [OF part(2) that])
  consider "x < - 4 \<or> 6 \<le> x" | "\<not> (x < - 4 \<or> 6 \<le> x)" "0 \<le> x"
    | "\<not> (x < - 4 \<or> 6 \<le> x)" "\<not> 0 \<le> x" by blast
  then show ?thesis
  proof cases
    case 1
    then have "c \<in> set (take 1 ?ds) \<or> c \<in> set (show_fraction (drop 1 ?ds)) \<or> c \<in> set (show_exp x)"
      using assms(2) by (simp only: show_sci_def Let_def if_True set_append Un_iff)
    then show ?thesis using part(1) fr number_char_show_exp by blast
  next
    case 2
    then have "c \<in> set (take (nat x + 1) ?ds) \<or> c \<in> set (show_fraction (drop (nat x + 1) ?ds))"
      using assms(2) by (simp only: show_sci_def Let_def if_True if_False set_append Un_iff)
    then show ?thesis using part(1) fr by blast
  next
    case 3
    then have "c = CHR ''0'' \<or> c \<in> set (show_fraction (replicate (nat (- x) - 1) CHR ''0'' @ ?ds))"
      using assms(2) by (simp only: show_sci_def Let_def if_False set_simps insert_iff)
    then show ?thesis using number_char_show_fraction [OF z] by auto
  qed
qed

lemma number_char_show_double:
  assumes "wf_double d \<or> printable d" and "c \<in> set (show_double d)"
  shows "number_char c"
proof (cases d)
  case (Fin s a)
  show ?thesis
  proof (cases "a = 0")
    case True
    then show ?thesis using Fin assms(2) number_char_show_sign by auto
  next
    case False
    then have a: "0 < a" using assms(1) Fin DBL_limits(2) by (auto simp: representable_def)
    obtain m x where mx: "sci6 a = (m, x)" by fastforce
    have "c \<in> set (show_sign s) \<or> c \<in> set (show_sci m x)" using assms(2) Fin False mx by simp
    then show ?thesis
      using number_char_show_sci [of m c x] sci6_digits [OF a mx] number_char_show_sign by auto
  qed
qed (use assms(2) number_char_show_sign in auto)

lemma number_char_show_int: "c \<in> set (show_int i) \<Longrightarrow> number_char c"
  using show_int_chars [of c i] by (auto simp: number_char_def)

lemma not_number_char [simp]: "\<not> number_char CHR ''|''" "\<not> number_char NUL"
  by (simp_all add: number_char_def is_digit_def)

theorem stod_show_double:
  assumes "printable d"
  shows "stod (show_double d) = Inr (quantise d)"
proof (cases d)
  case NaN
  then show ?thesis by (simp add: stod_def is_space_def prefix_ci_def to_lower_def)
next
  case (Infty s)
  then show ?thesis
    by (cases s) (simp_all add: stod_def show_sign_def is_space_def prefix_ci_def to_lower_def)
next
  case (Fin s a)
  show ?thesis
  proof (cases "a = 0")
    case True
    have "scan_number ''0'' = Some 0"
      by (simp add: scan_number_def scan_decimal_def scan_mantissa_def digits_val_def digit_val_def)
    then show ?thesis using Fin True stod_digit [of "CHR ''0''" "[]" s]
      by (simp add: strtod_erange_def to_double_def DBL_OVERFLOW_def)
  next
    case False
    then have lim: "2 * DBL_MIN \<le> a" "2 * a \<le> DBL_OVERFLOW" using assms Fin by simp_all
    then have a: "0 < a" using DBL_limits(2) by linarith
    obtain m x where mx: "sci6 a = (m, x)" by fastforce
    note m = sci6_digits [OF a mx]
    obtain c t where ct: "show_sci m x = c # t" "is_digit c" using show_sci_hd [OF m] by blast
    have "NUL \<notin> set (show_sci m x)" using number_char_show_sci [of m NUL x] m by auto
    then have nul: "NUL \<notin> set t" using ct(1) by simp
    have "scan_number (c # t) = Some (dec6 a)"
      using scan_number_show_sci [OF m, of x] mx ct(1) by (simp add: dec6_def)
    moreover have "show_double d = show_sign s @ c # t" using Fin False mx ct(1) by simp
    ultimately show ?thesis
      using stod_digit [OF ct(2) nul, of s] not_erange_dec6 [OF lim] Fin False by simp
  qed
qed

subsection \<open>Quantisation\<close>

text \<open>A double within one part in ten million of a six-digit decimal is written as that decimal:
  so writing and reading a value that was read before changes nothing.\<close>

lemma dec6_near:
  assumes m: "100000 \<le> m" "m < 1000000"
    and near: "\<bar>a - of_int m * 10 powi (x - 5)\<bar> \<le> of_int m * 10 powi (x - 5) / 10000000"
  shows "dec6 a = of_int m * 10 powi (x - 5)"
proof -
  define u where "u = (10::rat) powi (x - 5)"
  have u: "0 < u" by (simp add: u_def)
  have pw: "10 powi x = 100000 * u" "10 powi (x + 1) = 1000000 * u" "10 powi (x - 1) = 10000 * u"
    by (simp_all add: u_def power_int_diff power_int_add)
  have "(of_int m :: rat) \<le> of_int 999999" using m(2) by (subst of_int_le_iff) simp
  then have hi: "of_int m * u \<le> 999999 * u" using u by simp
  have "of_int 100000 \<le> (of_int m :: rat)" using m(1) by (subst of_int_le_iff)
  then have lo: "100000 * u \<le> of_int m * u" using u by simp
  have close: "\<bar>a - of_int m * u\<bar> \<le> of_int m * u / 10000000" using near by (simp add: u_def)
  show ?thesis
  proof (cases "10 powi x \<le> a")
    case True
    have "a < 10 powi (x + 1)" using close hi u unfolding pw by linarith
    then have il: "ilog 10 a = x" using True by (intro ilog_eqI) simp_all
    have "\<bar>of_int m * u - a\<bar> < 1 / 2 * u" using close hi u by linarith
    moreover have "of_int m * u - a = (of_int m - a / u) * u" using u by (simp add: left_diff_distrib)
    ultimately have "\<bar>of_int m - a / u\<bar> * u < 1 / 2 * u" using u by (simp add: abs_mult)
    then have "\<bar>of_int m - a / u\<bar> < 1 / 2" using u by (simp only: mult_less_cancel_right_pos)
    then have "round_half_even (a / u) = m" by (rule round_half_even_unique)
    then show ?thesis by (simp add: dec6_eq il u_def)
  next
    case False
    then have a: "a < 100000 * u" using pw by simp
    have "10 powi (x - 1) \<le> a" using close lo u unfolding pw by linarith
    then have il: "ilog 10 a = x - 1" using False by (intro ilog_eqI) simp_all
    have "of_int m * u < 100001 * u" using close hi a u by linarith
    then have "(of_int m :: rat) < of_int 100001" using u by simp
    then have m5: "m = 100000" using m(1) by (simp only: of_int_less_iff)
    define v where "v = u / 10"
    have v: "0 < v" "u = 10 * v" using u by (simp_all add: v_def)
    have "\<bar>of_int 1000000 * v - a\<bar> < 1 / 2 * v"
      using close v(1) unfolding m5 v(2) of_int_numeral by linarith
    moreover have "of_int 1000000 * v - a = (of_int 1000000 - a / v) * v"
      using v(1) by (simp add: left_diff_distrib)
    ultimately have "\<bar>of_int 1000000 - a / v\<bar> * v < 1 / 2 * v"
      using v(1) by (simp only: abs_mult abs_of_pos)
    then have "\<bar>of_int 1000000 - a / v\<bar> < 1 / 2"
      using v(1) by (simp only: mult_less_cancel_right_pos)
    then have "round_half_even (a / v) = 1000000" by (rule round_half_even_unique)
    moreover have "(10::rat) powi (ilog 10 a - 5) = v"
      by (simp add: il v_def u_def power_int_diff)
    moreover have "of_int 1000000 * v = of_int m * u" using v(2) by (simp add: m5)
    ultimately show ?thesis by (simp add: dec6_eq u_def)
  qed
qed

lemma dec6_form:
  assumes "0 < a"
  obtains m x where "100000 \<le> m" "m < 1000000" "dec6 a = of_int m * 10 powi (x - 5)"
proof -
  obtain m x where "sci6 a = (m, x)" by fastforce
  then show thesis using that [of m x] sci6_digits [OF assms] by (simp add: dec6_def)
qed

lemma quantise_Fin:
  assumes "2 * DBL_MIN \<le> a" and "2 * a \<le> DBL_OVERFLOW"
  shows "quantise (Fin s a) = Fin s (round_to 53 (- 1074) (dec6 a))"
    and "\<bar>round_to 53 (- 1074) (dec6 a) - dec6 a\<bar> \<le> dec6 a / 10000000"
proof -
  have a: "0 < a" using assms(1) DBL_limits(2) by linarith
  have "2 powi (- 1074 + 52) \<le> dec6 a"
    using dec6_error [OF a] assms(1) DBL_limits(1,2) by linarith
  then show "\<bar>round_to 53 (- 1074) (dec6 a) - dec6 a\<bar> \<le> dec6 a / 10000000"
    by (rule round_to_close [OF dec6_pos [OF a]])
  have "round_to 53 (- 1074) (dec6 a) < DBL_OVERFLOW"
    using not_erange_dec6 [OF assms] dec6_pos [OF a] by (simp add: strtod_erange_def)
  then show "quantise (Fin s a) = Fin s (round_to 53 (- 1074) (dec6 a))"
    using a by (simp add: to_double_def)
qed

lemma quantise_idem:
  assumes "printable d"
  shows "quantise (quantise d) = quantise d"
proof (cases d)
  case (Fin s a)
  show ?thesis
  proof (cases "a = 0")
    case False
    then have lim: "2 * DBL_MIN \<le> a" "2 * a \<le> DBL_OVERFLOW" using assms Fin by simp_all
    then have a: "0 < a" using DBL_limits(2) by linarith
    let ?b = "round_to 53 (- 1074) (dec6 a)"
    obtain m x where mx: "100000 \<le> m" "m < 1000000" "dec6 a = of_int m * 10 powi (x - 5)"
      by (rule dec6_form [OF a])
    have "dec6 ?b = dec6 a"
      using dec6_near [OF mx(1,2), of ?b x] quantise_Fin(2) [OF lim] by (simp add: mx(3) del: powi_less_iff)
    moreover have "?b \<noteq> 0" using quantise_Fin(2) [OF lim] dec6_pos [OF a] by auto
    ultimately show ?thesis using Fin False quantise_Fin(1) [OF lim, of s] by simp
  qed (simp add: Fin)
qed simp_all

lemma quantise_error:
  assumes "printable (Fin s a)"
  shows "\<exists>b. quantise (Fin s a) = Fin s b \<and> \<bar>b - a\<bar> \<le> \<bar>a\<bar> / 100000"
proof (cases "a = 0")
  case False
  then have lim: "2 * DBL_MIN \<le> a" "2 * a \<le> DBL_OVERFLOW" using assms by simp_all
  then have a: "0 < a" using DBL_limits(2) by linarith
  have "\<bar>round_to 53 (- 1074) (dec6 a) - a\<bar> \<le> a / 100000"
    using quantise_Fin(2) [OF lim] dec6_error [OF a] a by linarith
  then show ?thesis using quantise_Fin(1) [OF lim, of s] a by simp
qed simp

section \<open>The length of what is written\<close>

lemma length_show_digits: "0 \<le> n \<Longrightarrow> n < 10 ^ Suc k \<Longrightarrow> length (show_digits n) \<le> Suc k"
proof (induction k arbitrary: n)
  case 0
  then show ?case by (subst show_digits.simps) simp
next
  case (Suc k)
  then have "length (show_digits (n div 10)) \<le> Suc k" by (intro Suc.IH) (auto simp: div_less_iff_less_mult)
  then show ?case by (subst show_digits.simps) simp
qed

lemma length_show_int: "\<bar>i\<bar> < 10 ^ Suc k \<Longrightarrow> length (show_int i) \<le> Suc (Suc k)"
  using length_show_digits [of "\<bar>i\<bar>" k] by (auto simp: show_int_def)

lemma length_strip_zeros: "length (strip_zeros ds) \<le> length ds"
  using length_dropWhile_le [of "\<lambda>c. c = CHR ''0''" "rev ds"] by (simp add: strip_zeros_def)

lemma length_show_fraction: "length (show_fraction ds) \<le> Suc (length ds)"
  using length_strip_zeros [of ds] by (auto simp: show_fraction_def Let_def)

lemma length_show_exp:
  assumes "\<bar>x\<bar> < 1000"
  shows "length (show_exp x) \<le> 5"
proof -
  have "length (show_digits \<bar>x\<bar>) \<le> Suc (if \<bar>x\<bar> < 10 then 0 else 2)"
    using assms by (intro length_show_digits) auto
  then show ?thesis by (auto simp: show_exp_def split: if_splits)
qed

lemma length_show_sci:
  assumes "0 \<le> m" and "m < 1000000" and "\<bar>x\<bar> < 1000"
  shows "length (show_sci m x) \<le> 18"
proof -
  define ds where "ds = show_digits m"
  have ds: "length ds \<le> 6" using length_show_digits [of m 5] assms by (simp add: ds_def)
  consider "x < - 4 \<or> 6 \<le> x" | "0 \<le> x" "x < 6" | "- 4 \<le> x" "x < 0" by linarith
  then show ?thesis
  proof cases
    case 1
    have "length (show_fraction (drop 1 ds)) \<le> 7"
      using length_show_fraction [of "drop 1 ds"] ds by simp
    then show ?thesis using 1 length_show_exp [OF assms(3)] ds
      by (simp add: show_sci_def ds_def [symmetric] Let_def)
  next
    case 2
    then show ?thesis using length_show_fraction [of "drop (nat x + 1) ds"] ds
      by (simp add: show_sci_def ds_def [symmetric] Let_def)
  next
    case 3
    then show ?thesis
      using length_show_fraction [of "replicate (nat (- x) - 1) CHR ''0'' @ ds"] ds
      by (simp add: show_sci_def ds_def [symmetric] Let_def)
  qed
qed

lemma ilog10_bound:
  assumes "2 * DBL_MIN \<le> a" and "2 * a \<le> DBL_OVERFLOW"
  shows "\<bar>ilog 10 a\<bar> < 999"
proof -
  have pos: "0 < a" using assms(1) by (simp add: DBL_MIN_def)
  have "(10::rat) powi ilog 10 a \<le> a" "a < 10 powi (ilog 10 a + 1)"
    using ilog_bounds [of 10 a] pos by simp_all
  moreover have "a < 10 powi 512"
  proof -
    have "(2::rat) ^ 1024 = (2 ^ 2) ^ 512" by (simp only: power_mult [symmetric]) simp
    also have "\<dots> \<le> 10 ^ 512" by (rule power_mono) simp_all
    finally show ?thesis using assms(2) pos by (simp only: DBL_OVERFLOW_def power_int_numeral)
  qed
  moreover have "10 powi (- 512) < a"
  proof -
    have "(2::rat) ^ 1022 = (2 ^ 2) ^ 511" by (simp only: power_mult [symmetric]) simp
    also have "\<dots> \<le> 10 ^ 511" by (rule power_mono) simp_all
    also have "\<dots> \<le> 10 ^ 512" by (rule power_increasing) simp_all
    finally have "inverse (10 ^ 512) \<le> inverse ((2::rat) ^ 1022)" by (rule le_imp_inverse_le) simp
    moreover have "(10::rat) powi (- 512) = inverse (10 ^ 512)" "DBL_MIN = inverse (2 ^ 1022)"
      by (simp_all only: DBL_MIN_def power_int_minus power_int_numeral)
    ultimately show ?thesis using assms(1) pos by linarith
  qed
  ultimately have "(10::rat) powi ilog 10 a < 10 powi 512" "(10::rat) powi (- 512) < 10 powi (ilog 10 a + 1)"
    by linarith+
  then have "ilog 10 a < 512" "- 512 < ilog 10 a + 1" by (simp_all only: powi_less_iff)
  then show ?thesis by simp
qed

lemma length_show_double:
  assumes "printable d"
  shows "length (show_double d) \<le> 19"
proof (cases d)
  case (Fin s a)
  show ?thesis
  proof (cases "a = 0")
    case False
    then have lim: "2 * DBL_MIN \<le> a" "2 * a \<le> DBL_OVERFLOW" using assms Fin by simp_all
    then have pos: "0 < a" by (simp add: DBL_MIN_def)
    obtain m x where mx: "sci6 a = (m, x)" by fastforce
    have "\<bar>x\<bar> < 1000" using mx ilog10_bound [OF lim] by (auto simp: sci6_def Let_def split: if_splits)
    moreover have "0 \<le> m" "m < 1000000" using sci6_digits [OF pos mx] by simp_all
    ultimately have "length (show_sci m x) \<le> 18" by (intro length_show_sci)
    then show ?thesis using Fin False mx by (simp add: show_sign_def)
  qed (simp add: Fin show_sign_def)
qed (simp_all add: show_sign_def)

section \<open>The interface of a value that travels as text\<close>

text \<open>
  What the packet format needs of a pair of a writing and a reading function: on the values
  that are \<open>ok\<close>, reading what was written gives the value up to \<open>canon\<close>, a second trip changes
  nothing more, and the text is not empty and contains number characters only (so no separator).
\<close>

locale text_codec =
  fixes wr :: "'a \<Rightarrow> string"
    and rd :: "string \<Rightarrow> std_exn + 'a"
    and ok :: "'a \<Rightarrow> bool"
    and canon :: "'a \<Rightarrow> 'a"
  assumes rd_wr: "ok x \<Longrightarrow> rd (wr x) = Inr (canon x)"
    and wr_chars: "ok x \<Longrightarrow> c \<in> set (wr x) \<Longrightarrow> number_char c"
    and canon_idem: "ok x \<Longrightarrow> canon (canon x) = canon x"
begin

lemma no_separator: "ok x \<Longrightarrow> CHR ''|'' \<notin> set (wr x)"
  using wr_chars not_number_char(1) by blast

lemma no_nul: "ok x \<Longrightarrow> NUL \<notin> set (wr x)"
  using wr_chars not_number_char(2) by blast

lemma second_trip: "ok x \<Longrightarrow> ok (canon x) \<Longrightarrow> rd (wr (canon x)) = Inr (canon x)"
  by (simp add: rd_wr canon_idem)

end

interpretation int_text: text_codec "\<lambda>w :: int32. show_int (sint w)" stoi "\<lambda>_. True" "\<lambda>w. w"
  by unfold_locales (auto simp: stoi_show_int number_char_show_int)

interpretation uint64_text: text_codec "\<lambda>w :: uint64. show_int (uint w)" stoull "\<lambda>_. True" "\<lambda>w. w"
  by unfold_locales (auto simp: stoull_show_int number_char_show_int)

interpretation double_text: text_codec show_double stod printable quantise
  by unfold_locales (auto simp: stod_show_double quantise_idem intro: number_char_show_double)

end
