(* ===== verification/Player.thy ===== *)
theory Player
  imports Discoverer Number_Text
begin

text \<open>
  The media player of \<open>nsvr_player.hpp/.cpp\<close>. Its members are a record that extends the process;
  a derived class extends the record further. The virtual methods are a record of functions, the
  \<open>vtable\<close>, which every method that calls one of them takes as an argument: \<open>player_vtable\<close> is the
  one of \<open>Player\<close> itself, whose hooks do nothing. The methods of the streaming thread
  (\<open>onPreroll\<close>, \<open>onSample\<close>, \<open>processSample\<close>) are here as atomic steps.
\<close>

section \<open>State\<close>

record player = world +
  mState :: int32
  mCurrentMapInfo :: "nat \<times> nat"
  mCurrentSample :: ptr
  mCurrentBuffer :: ptr
  mPipeline :: ptr
  mGstBus :: ptr
  mPendingSeek :: double
  mSeekingLock :: bool
  mWidth :: int32
  mHeight :: int32
  mDuration :: double
  mTime :: double
  mVolume :: double
  mBufferDirty :: bool
  mLoop :: bool
  mMute :: bool

record 's vtable =
  onVideoFrame :: "nat \<Rightarrow> nat \<Rightarrow> 's \<Rightarrow> 's"
  onStateChanged :: "int32 \<Rightarrow> 's \<Rightarrow> 's"
  onStreamEnd :: "'s \<Rightarrow> 's"
  setupClock :: "'s \<Rightarrow> 's"
  onSeekFinished :: "'s \<Rightarrow> 's"
  onBeforeOpen :: "'s \<Rightarrow> 's"
  onBeforeClose :: "'s \<Rightarrow> 's"
  onBeforeUpdate :: "'s \<Rightarrow> 's"
  onBeforeSetState :: "int32 \<Rightarrow> 's \<Rightarrow> 's"
  setTime :: "double \<Rightarrow> 's \<Rightarrow> 's"

lemma emit_player_simps [simp]:
  "mState (emit e s) = mState s" "mCurrentMapInfo (emit e s) = mCurrentMapInfo s"
  "mCurrentSample (emit e s) = mCurrentSample s" "mCurrentBuffer (emit e s) = mCurrentBuffer s"
  "mPipeline (emit e s) = mPipeline s" "mGstBus (emit e s) = mGstBus s"
  "mPendingSeek (emit e s) = mPendingSeek s" "mSeekingLock (emit e s) = mSeekingLock s"
  "mWidth (emit e s) = mWidth s" "mHeight (emit e s) = mHeight s"
  "mDuration (emit e s) = mDuration s" "mTime (emit e s) = mTime s" "mVolume (emit e s) = mVolume s"
  "mBufferDirty (emit e s) = mBufferDirty s" "mLoop (emit e s) = mLoop s" "mMute (emit e s) = mMute s"
  by (simp_all add: emit_def)

section \<open>Getters and queries\<close>

definition getState :: "'a player_scheme \<Rightarrow> int32" where
  "getState s = mState s"

definition getDuration :: "'a player_scheme \<Rightarrow> double" where
  "getDuration s = mDuration s"

definition getLoop :: "'a player_scheme \<Rightarrow> bool" where
  "getLoop s = mLoop s"

definition getMute :: "'a player_scheme \<Rightarrow> bool" where
  "getMute s = mMute s"

definition getWidth :: "'a player_scheme \<Rightarrow> int32" where
  "getWidth s = mWidth s"

definition getHeight :: "'a player_scheme \<Rightarrow> int32" where
  "getHeight s = mHeight s"

definition queryState :: "env \<Rightarrow> 'a player_scheme \<Rightarrow> int32 \<times> 'a player_scheme" where
  "queryState E s =
     (let ((r, st), s) = ask (gst_element_get_state E) (Gst (Get_state (mPipeline s))) s;
          s = (case st of None \<Rightarrow> s | Some x \<Rightarrow> s\<lparr>mState := x\<rparr>);
          s = (if r = Change_failure then NSVR_LOG ''Failed to obtain state in specified timeout.'' s else s)
      in (mState s, s))"

definition getTime :: "env \<Rightarrow> 'a player_scheme \<Rightarrow> double \<times> 'a player_scheme" where
  "getTime E s =
     (if mPipeline s = None then (0, s)
      else
        (let (pos, s) = ask (gst_element_query_position E) (Gst (Query_position (mPipeline s))) s;
             s = (case pos of None \<Rightarrow> s | Some ns \<Rightarrow> s\<lparr>mTime := int_to_double (sint ns) / GST_SECOND\<rparr>)
         in (mTime s, s)))"

definition queryDuration :: "env \<Rightarrow> 'a player_scheme \<Rightarrow> 'a player_scheme" where
  "queryDuration E s =
     (if mPipeline s = None then s
      else
        (let (dur, s) = ask (gst_element_query_duration E) (Gst (Query_duration (mPipeline s))) s
         in (case dur of None \<Rightarrow> s | Some ns \<Rightarrow> s\<lparr>mDuration := int_to_double (sint ns) / GST_SECOND\<rparr>)))"

section \<open>Volume, mute and loop\<close>

definition getVolume :: "env \<Rightarrow> 'a player_scheme \<Rightarrow> double \<times> 'a player_scheme" where
  "getVolume E s =
     (if mPipeline s = None then (0, s)
      else
        (let (v, s) = ask (gst_get_volume E) (Gst (Get_volume (mPipeline s))) s; s = s\<lparr>mVolume := v\<rparr>
         in (mVolume s, s)))"

definition setVolume :: "double \<Rightarrow> 'a player_scheme \<Rightarrow> 'a player_scheme" where
  "setVolume vol s =
     (if \<not> (mPipeline s \<noteq> None \<or> \<not> feq (mVolume s) vol \<or> \<not> getMute s) then s
      else
        (let s = s\<lparr>mVolume := clamp vol 0 1, mMute := False\<rparr> in
         if mPipeline s \<noteq> None then emit (Gst (Set_volume (mPipeline s) (mVolume s))) s else s))"

definition setMute :: "env \<Rightarrow> bool \<Rightarrow> 'a player_scheme \<Rightarrow> 'a player_scheme" where
  "setMute E on s =
     (if \<not> (mPipeline s \<noteq> None \<or> on \<and> feq (saved_volume s) 0) then s
      else if on then
        (let (v, s) = getVolume E s; s = s\<lparr>saved_volume := v\<rparr>; s = setVolume 0 s
         in s\<lparr>mMute := True\<rparr>)
      else
        (let s = s\<lparr>mMute := False\<rparr>; s = setVolume (saved_volume s) s
         in s\<lparr>saved_volume := 1\<rparr>))"

definition setLoop :: "bool \<Rightarrow> 'a player_scheme \<Rightarrow> 'a player_scheme" where
  "setLoop on s = (if mLoop s \<noteq> on then s\<lparr>mLoop := on\<rparr> else s)"

section \<open>States\<close>

definition setState :: "env \<Rightarrow> 'a player_scheme vtable \<Rightarrow> int32 \<Rightarrow> 'a player_scheme \<Rightarrow> 'a player_scheme" where
  "setState E V st s =
     (if mPipeline s = None then s
      else
        (let s = onBeforeSetState V st s;
             old_state = getState s;
             (r, s) = ask (gst_element_set_state E) (Gst (Set_state (mPipeline s) st)) s
         in if r = Change_success then onStateChanged V old_state s else s))"

definition stop :: "env \<Rightarrow> 'a player_scheme vtable \<Rightarrow> 'a player_scheme \<Rightarrow> 'a player_scheme" where
  "stop E V s = setState E V GST_STATE_READY (setState E V GST_STATE_NULL s)"

definition play :: "env \<Rightarrow> 'a player_scheme vtable \<Rightarrow> 'a player_scheme \<Rightarrow> 'a player_scheme" where
  "play E V s =
     (let s = setState E V GST_STATE_PLAYING s in
      if getMute s then (let (v, s) = getVolume E s in if \<not> feq v 0 then setMute E True s else s)
      else s)"

definition replay :: "env \<Rightarrow> 'a player_scheme vtable \<Rightarrow> 'a player_scheme \<Rightarrow> 'a player_scheme" where
  "replay E V s = play E V (stop E V s)"

definition pause :: "env \<Rightarrow> 'a player_scheme vtable \<Rightarrow> 'a player_scheme \<Rightarrow> 'a player_scheme" where
  "pause E V s = setState E V GST_STATE_PAUSED s"

section \<open>Seeking\<close>

text \<open>\<open>Player::setTime\<close>. The product is converted to \<open>gint64\<close>; when it does not fit, the
  conversion is undefined.\<close>

definition Player_setTime :: "env \<Rightarrow> double \<Rightarrow> 'a player_scheme \<Rightarrow> 'a player_scheme" where
  "Player_setTime E time s =
     (if mPipeline s = None then s
      else if mSeekingLock s \<or> feq (mDuration s) 0 then s\<lparr>mPendingSeek := time\<rparr>
      else
        (case double_to_int64 (clamp time 0 (mDuration s) * GST_SECOND) of
           None \<Rightarrow> emit (Fault ''gint64 conversion out of range'') s
         | Some ns \<Rightarrow>
             (let (ok, s) = ask (gst_element_seek_simple E) (Gst (Seek_simple (mPipeline s) ns)) s
              in if ok then s\<lparr>mSeekingLock := True, mPendingSeek := - 1\<rparr>
                 else NSVR_LOG ''Flushing seek operation failed.'' s)))"

text \<open>The vtable of \<open>Player\<close> itself.\<close>

definition player_vtable :: "env \<Rightarrow> 'a player_scheme vtable" where
  "player_vtable E =
     \<lparr>onVideoFrame = (\<lambda>_ _ s. s), onStateChanged = (\<lambda>_ s. s), onStreamEnd = (\<lambda>s. s),
      setupClock = (\<lambda>s. s), onSeekFinished = (\<lambda>s. s), onBeforeOpen = (\<lambda>s. s),
      onBeforeClose = (\<lambda>s. s), onBeforeUpdate = (\<lambda>s. s), onBeforeSetState = (\<lambda>_ s. s),
      setTime = Player_setTime E\<rparr>"

section \<open>Closing and opening\<close>

definition Player_reset :: "'a player_scheme \<Rightarrow> 'a player_scheme" where
  "Player_reset s =
     s\<lparr>mState := GST_STATE_NULL, mPipeline := None, mGstBus := None, mCurrentBuffer := None,
       mCurrentSample := None, mWidth := 0, mHeight := 0, mDuration := 0, mTime := 0, mVolume := 1,
       mPendingSeek := - 1, mSeekingLock := False, mBufferDirty := False\<rparr>"

text \<open>\<open>if (p != nullptr) release(p);\<close>\<close>

definition release :: "(ptr \<Rightarrow> gst_call) \<Rightarrow> ptr \<Rightarrow> 'a world_scheme \<Rightarrow> 'a world_scheme" where
  "release f p s = (if p \<noteq> None then emit (Gst (f p)) s else s)"

lemma release_player_simps [simp]:
  "mState (release f p s) = mState s" "mCurrentSample (release f p s) = mCurrentSample s"
  "mCurrentBuffer (release f p s) = mCurrentBuffer s" "mPipeline (release f p s) = mPipeline s"
  "mGstBus (release f p s) = mGstBus s" "mSeekingLock (release f p s) = mSeekingLock s"
  "mBufferDirty (release f p s) = mBufferDirty s" "mPendingSeek (release f p s) = mPendingSeek s"
  "mLoop (release f p s) = mLoop s" "mMute (release f p s) = mMute s"
  by (simp_all add: release_def)

definition close :: "env \<Rightarrow> 'a player_scheme vtable \<Rightarrow> 'a player_scheme \<Rightarrow> 'a player_scheme" where
  "close E V s =
     (let s = onBeforeClose V s;
          s = stop E V s;
          s = release Pipeline_unref (mPipeline s) s;
          s = release Bus_unref (mGstBus s) s;
          s = release Buffer_unmap (mCurrentBuffer s) s;
          s = release Sample_unref (mCurrentSample s) s
      in Player_reset s)"

text \<open>The constructor and the destructor. The destructor of the base class runs with the base
  class's vtable, whatever the object was.\<close>

definition Player_ctor :: "env \<Rightarrow> 'a player_scheme \<Rightarrow> 'a player_scheme" where
  "Player_ctor E s =
     (let s = Player_reset (s\<lparr>mLoop := False, mMute := False\<rparr>);
          (ok, s) = gstreamerInitialized E s
      in if ok then s else NSVR_LOG ''Player requires GStreamer to be initialized.'' s)"

definition Player_dtor :: "env \<Rightarrow> 'a player_scheme \<Rightarrow> 'a player_scheme" where
  "Player_dtor E s = close E (player_vtable E) s"

text \<open>The two stanzas of \<open>open\<close> that force the pipeline into a state and wait for it.\<close>

definition force_state ::
  "env \<Rightarrow> 'a player_scheme vtable \<Rightarrow> int32 \<Rightarrow> string \<Rightarrow> 'a player_scheme \<Rightarrow> bool \<times> 'a player_scheme" where
  "force_state E V target msg s =
     (let (r, s) = ask (gst_element_set_state E) (Gst (Set_state (mPipeline s) target)) s in
      if r \<noteq> Change_success then
        (let ((r, st), s) = ask (gst_element_get_state E) (Gst (Get_state (mPipeline s))) s in
         if r = Change_failure \<or> st \<noteq> Some target then (False, NSVR_LOG msg (close E V s))
         else (True, s))
      else (True, s))"

definition pipeline_cmd :: "discoverer \<Rightarrow> int32 \<Rightarrow> int32 \<Rightarrow> string \<Rightarrow> string option" where
  "pipeline_cmd d width height fmt =
     (if getHasVideo d then
        Some (''playbin uri='' @ [CHR 0x22] @ getMediaUri d @ [CHR 0x22] @ '' video-sink='' @ [CHR 0x22] @
          ''appsink drop=yes async=no qos=yes sync=yes max-lateness=1000000000'' @
          '' caps=video/x-raw'' @ '',width='' @ show_int (sint width) @
          '',height='' @ show_int (sint height) @ '',format='' @ fmt @ [CHR 0x22])
      else if getHasAudio d then Some (''playbin uri='' @ [CHR 0x22] @ getMediaUri d @ [CHR 0x22])
      else None)"

text \<open>Hooking the frame callbacks into the video sink of the pipeline; the sink is unreferenced at
  the end of its scope.\<close>

definition hook_sink ::
  "env \<Rightarrow> 'a player_scheme vtable \<Rightarrow> discoverer \<Rightarrow> 'a player_scheme \<Rightarrow> bool \<times> 'a player_scheme" where
  "hook_sink E V d s =
     (if getHasVideo d then
        (let (sink, s) = ask (gst_video_sink E) (Gst (Get_video_sink (mPipeline s))) s in
         if sink = None then
           (False, BindToScope_dtor (Scoped_GstAppSink None)
              (NSVR_LOG ''Unable to obtain pipeline's video sink.'' (close E V s)))
         else (True, BindToScope_dtor (Scoped_GstAppSink sink) (emit (Gst (Set_callbacks sink)) s)))
      else (True, s))"

text \<open>From the pipeline and its bus to a prerolled player.\<close>

definition preroll_pipeline ::
  "env \<Rightarrow> 'a player_scheme vtable \<Rightarrow> discoverer \<Rightarrow> 'a player_scheme \<Rightarrow> bool \<times> 'a player_scheme" where
  "preroll_pipeline E V d s =
     (let (ok, s) = hook_sink E V d s in
      if \<not> ok then (False, s)
      else
        (let s = setupClock V s;
             (ok, s) = force_state E V GST_STATE_READY ''Failed to put pipeline in READY state.'' s in
         if \<not> ok then (False, s)
         else
           (let (ok, s) = force_state E V GST_STATE_PAUSED ''Failed to put pipeline in PAUSE state.'' s in
            if \<not> ok then (False, s)
            else (True, s\<lparr>mDuration := Discoverer_getDuration d\<rparr>))))"

definition launch ::
  "env \<Rightarrow> 'a player_scheme vtable \<Rightarrow> discoverer \<Rightarrow> string \<Rightarrow> 'a player_scheme \<Rightarrow> bool \<times> 'a player_scheme" where
  "launch E V d cmd s =
     (let ((p, errors), s) = ask (gst_parse_launch E) (Gst (Parse_launch (c_str cmd))) s;
          s = s\<lparr>mPipeline := p\<rparr> in
      if p = None then (False, log_error errors ''Unable to launch the pipeline'' (close E V s))
      else
        (let (bus, s) = ask (gst_pipeline_get_bus E) (Gst (Pipeline_get_bus (mPipeline s))) s;
             s = s\<lparr>mGstBus := bus\<rparr> in
         if bus = None then
           (False, log_error errors ''Unable to obtain pipeline's event bus'' (close E V s))
         else preroll_pipeline E V d s))"

definition open_sized ::
  "env \<Rightarrow> 'a player_scheme vtable \<Rightarrow> string \<Rightarrow> int32 \<Rightarrow> int32 \<Rightarrow> string \<Rightarrow> 'a player_scheme \<Rightarrow>
     bool \<times> 'a player_scheme" where
  "open_sized E V path width height fmt s =
     (let (ok, s) = gstreamerInitialized E s in
      if \<not> ok then (False, NSVR_LOG ''Player requires GStreamer to be initialized.'' s)
      else
        (let s = onBeforeOpen V (close E V s) in
         if path = [] then (False, NSVR_LOG ''Path given to Player is empty.'' s)
         else
           (let (found, d, s) = Discoverer_open E path new_discoverer s in
            if found then
              (case pipeline_cmd d width height fmt of
                 None \<Rightarrow> (False, NSVR_LOG ''Media provided does not contain neither audio nor video.'' s)
               | Some cmd \<Rightarrow> launch E V d cmd s)
            else (True, s))))"

text \<open>The three shorter overloads of \<open>open\<close>.\<close>

definition open_bgra ::
  "env \<Rightarrow> 'a player_scheme vtable \<Rightarrow> string \<Rightarrow> int32 \<Rightarrow> int32 \<Rightarrow> 'a player_scheme \<Rightarrow> bool \<times> 'a player_scheme" where
  "open_bgra E V path width height s = open_sized E V path width height ''BGRA'' s"

definition open_fmt ::
  "env \<Rightarrow> 'a player_scheme vtable \<Rightarrow> string \<Rightarrow> string \<Rightarrow> 'a player_scheme \<Rightarrow> bool \<times> 'a player_scheme" where
  "open_fmt E V path fmt s =
     (let (found, d, s) = Discoverer_open E path new_discoverer s in
      if found then open_sized E V path (Discoverer_getWidth d) (Discoverer_getHeight d) fmt s
      else (False, s))"

definition open_auto ::
  "env \<Rightarrow> 'a player_scheme vtable \<Rightarrow> string \<Rightarrow> 'a player_scheme \<Rightarrow> bool \<times> 'a player_scheme" where
  "open_auto E V path s =
     (let (found, d, s) = Discoverer_open E path new_discoverer s in
      if found then open_bgra E V path (Discoverer_getWidth d) (Discoverer_getHeight d) s
      else (False, s))"

section \<open>The update loop\<close>

definition log_message :: "string option \<Rightarrow> string \<Rightarrow> 'a world_scheme \<Rightarrow> 'a world_scheme" where
  "log_message dbg msg s =
     (if dbg = None then emit (Fault ''null debug string streamed'') s else NSVR_LOG msg s)"

definition handle_message ::
  "env \<Rightarrow> 'a player_scheme vtable \<Rightarrow> message \<Rightarrow> 'a player_scheme \<Rightarrow> 'a player_scheme" where
  "handle_message E V msg s =
     (case msg of
        Msg_error err dbg \<Rightarrow> log_message dbg ''Pipeline encountered an error'' s
      | Msg_state_changed src old_state new_state \<Rightarrow>
          if src = mPipeline s then
            (let s = s\<lparr>mState := new_state\<rparr> in
             if old_state \<noteq> mState s then onStateChanged V old_state s else s)
          else s
      | Msg_async_done \<Rightarrow>
          (let s = (if mSeekingLock s then s\<lparr>mSeekingLock := False\<rparr> else s);
               s = (if 0 \<le> mPendingSeek s then setTime V (mPendingSeek s) s else s)
           in onSeekFinished V s)
      | Msg_duration_changed \<Rightarrow> queryDuration E s
      | Msg_eos \<Rightarrow>
          (let s = onStreamEnd V s in if getLoop s then replay E V s else pause E V s)
      | Msg_warning err dbg \<Rightarrow> log_message dbg ''Pipeline emitted warning'' s
      | Msg_info err dbg \<Rightarrow> log_message dbg ''Pipeline emitted info'' s
      | Msg_other \<Rightarrow> s)"

fun bus_loop :: "nat \<Rightarrow> env \<Rightarrow> 'a player_scheme vtable \<Rightarrow> 'a player_scheme \<Rightarrow> 'a player_scheme" where
  "bus_loop 0 E V s = emit Diverged s"
| "bus_loop (Suc n) E V s =
     (let (pending, s) = ask (gst_bus_have_pending E) (Gst (Bus_have_pending (mGstBus s))) s in
      if \<not> pending then s
      else
        (let (msg, s) = ask (gst_bus_pop E) (Gst (Bus_pop (mGstBus s))) s in
         bus_loop n E V
           (case msg of None \<Rightarrow> s | Some m \<Rightarrow> BindToScope_dtor Scoped_GstMessage (handle_message E V m s))))"

definition consume_frame :: "'a player_scheme vtable \<Rightarrow> 'a player_scheme \<Rightarrow> 'a player_scheme" where
  "consume_frame V s =
     (if mBufferDirty s then
        (let s = onVideoFrame V (fst (mCurrentMapInfo s)) (snd (mCurrentMapInfo s)) s;
             s = release Buffer_unmap (mCurrentBuffer s) s;
             s = release Sample_unref (mCurrentSample s) s
         in s\<lparr>mCurrentBuffer := None, mCurrentSample := None, mBufferDirty := False\<rparr>)
      else s)"

definition update :: "env \<Rightarrow> 'a player_scheme vtable \<Rightarrow> 'a player_scheme \<Rightarrow> 'a player_scheme" where
  "update E V s =
     (let s = onBeforeUpdate V s;
          s = (if mGstBus s \<noteq> None then bus_loop (loop_bound E) E V s else s)
      in consume_frame V s)"

section \<open>The streaming thread\<close>

definition processSample :: "env \<Rightarrow> nat \<Rightarrow> 'a player_scheme \<Rightarrow> 'a player_scheme" where
  "processSample E sample s =
     (if mBufferDirty s then emit (Gst (Sample_unref (Some sample))) s
      else
        (let s = s\<lparr>mCurrentSample := Some sample\<rparr>;
             (buf, s) = ask (gst_sample_get_buffer E) (Gst (Sample_get_buffer (Some sample))) s;
             s = s\<lparr>mCurrentBuffer := buf\<rparr>;
             (info, s) = ask (gst_buffer_map E) (Gst (Buffer_map (mCurrentBuffer s))) s
         in s\<lparr>mCurrentMapInfo := info, mBufferDirty := True\<rparr>))"

definition read_caps :: "caps \<Rightarrow> 'a player_scheme \<Rightarrow> 'a player_scheme" where
  "read_caps c s =
     (case c of
        No_caps \<Rightarrow> s
      | Not_fixed \<Rightarrow> NSVR_LOG ''caps is not fixed for this media.'' s
      | No_structure \<Rightarrow> s
      | Caps w h \<Rightarrow>
          (case w of
             None \<Rightarrow> NSVR_LOG ''No width/height information available.'' s
           | Some x \<Rightarrow>
               (let s = s\<lparr>mWidth := x\<rparr> in
                case h of
                  None \<Rightarrow> NSVR_LOG ''No width/height information available.'' s
                | Some y \<Rightarrow> s\<lparr>mHeight := y\<rparr>)))"

definition onPreroll :: "env \<Rightarrow> 'a player_scheme \<Rightarrow> 'a player_scheme" where
  "onPreroll E s =
     (let (sample, s) = ask (gst_pull_preroll E) (Gst Pull_preroll) s in
      case sample of
        None \<Rightarrow> s
      | Some x \<Rightarrow>
          (let (c, s) = ask (gst_sample_caps E) (Gst (Sample_caps (Some x))) s
           in processSample E x (read_caps c s)))"

definition onSample :: "env \<Rightarrow> 'a player_scheme \<Rightarrow> 'a player_scheme" where
  "onSample E s =
     (let (sample, s) = ask (gst_pull_sample E) (Gst Pull_sample) s in
      case sample of None \<Rightarrow> s | Some x \<Rightarrow> processSample E x s)"

text \<open>The storage a player is constructed in, in a fresh process, and a player with an open pipeline
  of ten seconds, for concrete runs.\<close>

definition fresh_storage :: player where
  "fresh_storage =
     \<lparr>trace = [], saved_volume = 1, mState = GST_STATE_NULL, mCurrentMapInfo = (0, 0),
      mCurrentSample = None, mCurrentBuffer = None, mPipeline = None, mGstBus = None,
      mPendingSeek = 0, mSeekingLock = False, mWidth = 0, mHeight = 0, mDuration = 0, mTime = 0,
      mVolume = 0, mBufferDirty = False, mLoop = False, mMute = False\<rparr>"

definition open_player :: player where
  "open_player = fresh_storage\<lparr>mPipeline := Some 1, mGstBus := Some 2, mDuration := Fin False 10,
     mState := GST_STATE_PAUSED, mPendingSeek := - 1, mVolume := 1\<rparr>"

end
