(* ===== verification/Player_Contract.thy ===== *)
theory Player_Contract
  imports Player
begin

text \<open>
  The operations of the player as one type of steps, the interface between the player and the
  hooks of its derived classes: the locales \<open>player_effects\<close> and \<open>player_contract\<close> state what the
  primitive effects and the hooks must keep of a predicate, and prove once that every operation
  keeps it. The interpretations, in the theories that follow, instantiate the predicate.
\<close>

section \<open>Quiet events\<close>

text \<open>The events that neither acquire nor release a resource nor belong to the seek protocol. The
  player makes no call to GIO, so those of its derived classes are accounted for where they are
  made.\<close>

fun quiet :: "event \<Rightarrow> bool" where
  "quiet (Gst (Parse_launch _)) = False"
| "quiet (Gst (Pipeline_get_bus _)) = False"
| "quiet (Gst (Get_video_sink _)) = False"
| "quiet (Gst (Sink_unref k)) = (k = None)"
| "quiet (Gst (Pipeline_unref _)) = False"
| "quiet (Gst (Bus_unref _)) = False"
| "quiet (Gst (Bus_pop _)) = False"
| "quiet (Gst (Seek_simple _ _)) = False"
| "quiet (Gst Pull_preroll) = False"
| "quiet (Gst Pull_sample) = False"
| "quiet (Gst (Buffer_map _)) = False"
| "quiet (Gst (Buffer_unmap _)) = False"
| "quiet (Gst (Sample_unref _)) = False"
| "quiet (Clk (Pipeline_get_clock _)) = False"
| "quiet (Clk (Net_client_clock_new _ _ _)) = False"
| "quiet (Clk (Net_time_provider_new _ _ _)) = False"
| "quiet (Clk (Clock_unref _)) = False"
| "quiet (Clk (Provider_unref _)) = False"
| "quiet (Gio _) = False"
| "quiet _ = True"

text \<open>The pipeline or bus an event is about is null or the given one: a player only calls into
  the objects it holds.\<close>

fun fits :: "ptr \<Rightarrow> ptr \<Rightarrow> event \<Rightarrow> bool" where
  "fits p b (Gst (Set_state q _)) \<longleftrightarrow> q = None \<or> q = p"
| "fits p b (Gst (Get_state q)) \<longleftrightarrow> q = None \<or> q = p"
| "fits p b (Gst (Query_position q)) \<longleftrightarrow> q = None \<or> q = p"
| "fits p b (Gst (Query_duration q)) \<longleftrightarrow> q = None \<or> q = p"
| "fits p b (Gst (Set_volume q _)) \<longleftrightarrow> q = None \<or> q = p"
| "fits p b (Gst (Get_volume q)) \<longleftrightarrow> q = None \<or> q = p"
| "fits p b (Gst (Bus_have_pending c)) \<longleftrightarrow> c = None \<or> c = b"
| "fits p b (Gst (Set_callbacks k)) \<longleftrightarrow> k = None"
| "fits p b (Gst (Sample_caps x)) \<longleftrightarrow> x = None"
| "fits p b (Gst (Sample_get_buffer x)) \<longleftrightarrow> x = None"
| "fits p b (Clk (Pipeline_get_clock q)) \<longleftrightarrow> q = None \<or> q = p"
| "fits p b (Clk (Use_clock q c)) \<longleftrightarrow> q = None \<or> q = p"
| "fits p b (Clk (Set_start_time q)) \<longleftrightarrow> q = None \<or> q = p"
| "fits p b (Clk (Set_base_time q t)) \<longleftrightarrow> q = None \<or> q = p"
| "fits p b (Clk (Get_base_time q)) \<longleftrightarrow> q = None \<or> q = p"
| "fits p b _ \<longleftrightarrow> True"

lemma fits_None: "fits None None e \<Longrightarrow> fits p b e"
  by (cases "(p, b, e)" rule: fits.cases) auto

text \<open>A step that only appends quiet events about nothing.\<close>

inductive quietly :: "'a world_scheme \<Rightarrow> 'a world_scheme \<Rightarrow> bool" where
  refl [intro, simp]: "quietly s s"
| step: "quietly s t \<Longrightarrow> quiet e \<Longrightarrow> fits None None e \<Longrightarrow> quietly s (emit e t)"

lemma quietly_emit [intro]: "quiet e \<Longrightarrow> fits None None e \<Longrightarrow> quietly s (emit e s)"
  by (auto intro: quietly.step)

lemma quietly_trans: "quietly t u \<Longrightarrow> quietly s t \<Longrightarrow> quietly s u"
  by (induction rule: quietly.induct) (auto intro: quietly.step)

lemma quietly_frame: "quietly s t \<Longrightarrow> \<exists>h. t = s\<lparr>trace := h\<rparr>"
proof (induction rule: quietly.induct)
  case (refl s)
  show ?case by (rule exI [of _ "trace s"]) simp
qed (auto simp: emit_def)

lemma quietly_gstreamerInitialized: "gstreamerInitialized E s = (ok, t) \<Longrightarrow> quietly s t"
  by (auto simp: gstreamerInitialized_def ask_def split: if_splits intro!: quietly.step)

lemma quietly_pathToUri: "pathToUri E path s = (uri, t) \<Longrightarrow> quietly s t"
  by (auto simp: pathToUri_def ask_def split: if_splits option.splits intro!: quietly.step)

lemma quietly_store_info: "store_info info d s = (d', t) \<Longrightarrow> quietly s t"
  by (auto simp: store_info_def Let_def split: if_splits intro!: quietly.step)

lemma quietly_Discoverer_open: "Discoverer_open E path d s = (ok, d', t) \<Longrightarrow> quietly s t"
  by (auto simp: Discoverer_open_def ask_def Let_def split: if_splits prod.splits option.splits
      intro!: quietly.step quietly_emit
      dest!: quietly_gstreamerInitialized quietly_pathToUri quietly_store_info
      intro: quietly_trans)

section \<open>Operations as steps\<close>

datatype player_op =
    Op_open string int32 int32 string
  | Op_open_bgra string int32 int32
  | Op_open_fmt string string
  | Op_open_auto string
  | Op_close
  | Op_stop
  | Op_play
  | Op_replay
  | Op_pause
  | Op_update
  | Op_setState int32
  | Op_queryState
  | Op_setLoop bool
  | Op_setTime double
  | Op_getTime
  | Op_setVolume double
  | Op_getVolume
  | Op_setMute bool
  | Op_preroll
  | Op_sample

text \<open>The last two are steps of the streaming thread, all others are calls of the user.\<close>

fun exec_op :: "env \<Rightarrow> 'a player_scheme vtable \<Rightarrow> player_op \<Rightarrow> 'a player_scheme \<Rightarrow> 'a player_scheme" where
  "exec_op E V (Op_open path w h fmt) s = snd (open_sized E V path w h fmt s)"
| "exec_op E V (Op_open_bgra path w h) s = snd (open_bgra E V path w h s)"
| "exec_op E V (Op_open_fmt path fmt) s = snd (open_fmt E V path fmt s)"
| "exec_op E V (Op_open_auto path) s = snd (open_auto E V path s)"
| "exec_op E V Op_close s = close E V s"
| "exec_op E V Op_stop s = stop E V s"
| "exec_op E V Op_play s = play E V s"
| "exec_op E V Op_replay s = replay E V s"
| "exec_op E V Op_pause s = pause E V s"
| "exec_op E V Op_update s = update E V s"
| "exec_op E V (Op_setState st) s = setState E V st s"
| "exec_op E V Op_queryState s = snd (queryState E s)"
| "exec_op E V (Op_setLoop on) s = setLoop on s"
| "exec_op E V (Op_setTime t) s = setTime V t s"
| "exec_op E V Op_getTime s = snd (getTime E s)"
| "exec_op E V (Op_setVolume v) s = setVolume v s"
| "exec_op E V Op_getVolume s = snd (getVolume E s)"
| "exec_op E V (Op_setMute on) s = setMute E on s"
| "exec_op E V Op_preroll s = onPreroll E s"
| "exec_op E V Op_sample s = onSample E s"

definition run :: "env \<Rightarrow> 'a player_scheme vtable \<Rightarrow> player_op list \<Rightarrow> 'a player_scheme \<Rightarrow> 'a player_scheme" where
  "run E V ops s = fold (exec_op E V) ops s"

section \<open>Unlocking\<close>

lemma unlock: "(if mSeekingLock s then s\<lparr>mSeekingLock := False\<rparr> else s) = s\<lparr>mSeekingLock := False\<rparr>"
  by (cases s) simp

lemma handle_message_async_done:
  "handle_message E V Msg_async_done s =
     (let s = s\<lparr>mSeekingLock := False\<rparr>
      in onSeekFinished V (if 0 \<le> mPendingSeek s then setTime V (mPendingSeek s) s else s))"
  by (simp only: handle_message_def message.case unlock Let_def)

section \<open>The contract\<close>

text \<open>First the effects the methods are made of.\<close>

locale player_effects =
  fixes E :: env
    and I :: "'a player_scheme \<Rightarrow> bool"
  assumes keep_quiet: "I s \<Longrightarrow> quiet e \<Longrightarrow> fits (mPipeline s) (mGstBus s) e \<Longrightarrow> I (emit e s)"
    and keep_state: "I s \<Longrightarrow> I (s\<lparr>mState := x\<rparr>)"
    and keep_time: "I s \<Longrightarrow> I (s\<lparr>mTime := t\<rparr>)"
    and keep_duration: "I s \<Longrightarrow> I (s\<lparr>mDuration := t\<rparr>)"
    and keep_volume: "I s \<Longrightarrow> I (s\<lparr>mVolume := v\<rparr>)"
    and keep_mute: "I s \<Longrightarrow> I (s\<lparr>mMute := m\<rparr>)"
    and keep_loop: "I s \<Longrightarrow> I (s\<lparr>mLoop := m\<rparr>)"
    and keep_saved: "I s \<Longrightarrow> I (s\<lparr>saved_volume := v\<rparr>)"
    and keep_pending: "I s \<Longrightarrow> I (s\<lparr>mPendingSeek := t\<rparr>)"
    and keep_seek: "I s \<Longrightarrow> mPipeline s = Some p \<Longrightarrow> \<not> mSeekingLock s \<Longrightarrow>
      gst_element_seek_simple E (Gst (Seek_simple (Some p) ns) # trace s) \<Longrightarrow>
      I ((emit (Gst (Seek_simple (Some p) ns)) s)\<lparr>mSeekingLock := True\<rparr>)"
    and keep_no_seek: "I s \<Longrightarrow> mPipeline s = Some p \<Longrightarrow> \<not> mSeekingLock s \<Longrightarrow>
      \<not> gst_element_seek_simple E (Gst (Seek_simple (Some p) ns) # trace s) \<Longrightarrow>
      I (emit (Gst (Seek_simple (Some p) ns)) s)"
    and keep_done: "I s \<Longrightarrow> b = mGstBus s \<Longrightarrow>
      gst_bus_pop E (Gst (Bus_pop b) # trace s) = Some Msg_async_done \<Longrightarrow>
      I ((emit (Gst (Bus_pop b)) s)\<lparr>mSeekingLock := False\<rparr>)"
    and keep_pop: "I s \<Longrightarrow> b = mGstBus s \<Longrightarrow>
      gst_bus_pop E (Gst (Bus_pop b) # trace s) \<noteq> Some Msg_async_done \<Longrightarrow>
      I (emit (Gst (Bus_pop b)) s)"
    and keep_launch: "I s \<Longrightarrow> mPipeline s = None \<Longrightarrow> e = Gst (Parse_launch c) \<Longrightarrow>
      gst_parse_launch E (e # trace s) = (q, err) \<Longrightarrow> I ((emit e s)\<lparr>mPipeline := q\<rparr>)"
    and keep_bus: "I s \<Longrightarrow> mGstBus s = None \<Longrightarrow> e = Gst (Pipeline_get_bus (mPipeline s)) \<Longrightarrow>
      I ((emit e s)\<lparr>mGstBus := gst_pipeline_get_bus E (e # trace s)\<rparr>)"
    and keep_sink: "I s \<Longrightarrow> q = mPipeline s \<Longrightarrow> gst_video_sink E (Gst (Get_video_sink q) # trace s) = Some k \<Longrightarrow>
      I (emit (Gst (Sink_unref (Some k))) (emit (Gst (Set_callbacks (Some k))) (emit (Gst (Get_video_sink q)) s)))"
    and keep_no_sink: "I s \<Longrightarrow> q = mPipeline s \<Longrightarrow> gst_video_sink E (Gst (Get_video_sink q) # trace s) = None \<Longrightarrow>
      I (emit (Gst (Get_video_sink q)) s)"
    and keep_free: "I s \<Longrightarrow> I (Player_reset (release Sample_unref (mCurrentSample s)
      (release Buffer_unmap (mCurrentBuffer s) (release Bus_unref (mGstBus s)
        (release Pipeline_unref (mPipeline s) s)))))"
    and keep_shown: "I s \<Longrightarrow> I ((release Sample_unref (mCurrentSample s) (release Buffer_unmap (mCurrentBuffer s) s))
      \<lparr>mCurrentBuffer := None, mCurrentSample := None, mBufferDirty := False\<rparr>)"
    and keep_preroll: "I s \<Longrightarrow> I (onPreroll E s)"
    and keep_sample: "I s \<Longrightarrow> I (onSample E s)"
begin

lemmas effects_keep = keep_quiet keep_state keep_time keep_duration keep_volume
  keep_mute keep_loop keep_saved keep_pending

lemma keep_quietly: "quietly s t \<Longrightarrow> I s \<Longrightarrow> I t"
  by (induction rule: quietly.induct) (auto intro: keep_quiet fits_None)

lemma queryState_keeps: "I s \<Longrightarrow> I (snd (queryState E s))"
  by (auto simp: queryState_def ask_def Let_def split: prod.split option.split intro!: effects_keep)

lemma getTime_keeps: "I s \<Longrightarrow> I (snd (getTime E s))"
  by (auto simp: getTime_def ask_def Let_def split: option.split intro!: effects_keep)

lemma queryDuration_keeps: "I s \<Longrightarrow> I (queryDuration E s)"
  by (auto simp: queryDuration_def ask_def Let_def split: option.split intro!: effects_keep)

lemma getVolume_keeps: "I s \<Longrightarrow> I (snd (getVolume E s))"
  by (auto simp: getVolume_def ask_def Let_def intro!: effects_keep)

lemma setVolume_keeps: "I s \<Longrightarrow> I (setVolume v s)"
  by (auto simp: setVolume_def Let_def intro!: effects_keep)

lemma setMute_keeps: "I s \<Longrightarrow> I (setMute E on s)"
  using getVolume_keeps [of s]
  by (auto simp: setMute_def Let_def split: prod.split intro!: effects_keep setVolume_keeps)

lemma setLoop_keeps: "I s \<Longrightarrow> I (setLoop on s)"
  by (simp add: setLoop_def effects_keep)

lemma Player_setTime_keeps: "I s \<Longrightarrow> I (Player_setTime E t s)"
  by (cases "mPipeline s"; cases "double_to_int64 (clamp t 0 (mDuration s) * GST_SECOND)")
    (simp_all add: Player_setTime_def ask_def Let_def keep_pending keep_quiet keep_seek keep_no_seek)

lemma log_error_keeps: "I s \<Longrightarrow> I (log_error b msg s)"
  by (simp add: log_error_def keep_quiet)

lemma log_message_keeps: "I s \<Longrightarrow> I (log_message dbg msg s)"
  by (simp add: log_message_def keep_quiet)

lemma Discoverer_open_keeps: "Discoverer_open E path d s = (ok, d', t) \<Longrightarrow> I s \<Longrightarrow> I t"
  by (rule keep_quietly [OF quietly_Discoverer_open])

end

text \<open>Then the hooks a derived class may override.\<close>

locale player_contract = player_effects E I
  for E :: env and I :: "'a player_scheme \<Rightarrow> bool" +
  fixes V :: "'a player_scheme vtable"
  assumes hook_frame: "I s \<Longrightarrow> I (onVideoFrame V d n s)"
    and hook_changed: "I s \<Longrightarrow> I (onStateChanged V st s)"
    and hook_end: "I s \<Longrightarrow> I (onStreamEnd V s)"
    and hook_clock: "I s \<Longrightarrow> I (setupClock V s)"
    and hook_seek: "I s \<Longrightarrow> I (onSeekFinished V s)"
    and hook_open: "I s \<Longrightarrow> I (onBeforeOpen V s)"
    and hook_close: "I s \<Longrightarrow> I (onBeforeClose V s)"
    and hook_update: "I s \<Longrightarrow> I (onBeforeUpdate V s)"
    and hook_set_state: "I s \<Longrightarrow> I (onBeforeSetState V st s)"
    and hook_time: "I s \<Longrightarrow> I (setTime V t s)"
    and open_pipeline: "mPipeline (onBeforeOpen V s) = mPipeline s"
    and open_bus: "mGstBus (onBeforeOpen V s) = mGstBus s"
begin

lemmas keeps = effects_keep hook_frame hook_changed hook_end hook_clock hook_seek hook_open hook_close
  hook_update hook_set_state hook_time

lemma setState_keeps: "I s \<Longrightarrow> I (setState E V st s)"
  by (auto simp: setState_def ask_def Let_def intro!: keeps)

lemma stop_keeps: "I s \<Longrightarrow> I (stop E V s)"
  by (simp add: stop_def setState_keeps)

lemma play_keeps: "I s \<Longrightarrow> I (play E V s)"
  using getVolume_keeps [of "setState E V GST_STATE_PLAYING s"] setState_keeps [of s]
  by (auto simp: play_def Let_def split: prod.split intro!: setMute_keeps)

lemma replay_keeps: "I s \<Longrightarrow> I (replay E V s)"
  by (simp add: replay_def play_keeps stop_keeps)

lemma pause_keeps: "I s \<Longrightarrow> I (pause E V s)"
  by (simp add: pause_def setState_keeps)

lemma close_keeps: "I s \<Longrightarrow> I (close E V s)"
  using keep_free [of "stop E V (onBeforeClose V s)"] stop_keeps hook_close
  by (simp add: close_def Let_def)

lemma force_state_keeps: "I s \<Longrightarrow> I (snd (force_state E V st msg s))"
  by (auto simp: force_state_def ask_def Let_def split: prod.split intro!: keeps close_keeps)

lemma hook_sink_keeps: "I s \<Longrightarrow> I (snd (hook_sink E V d s))"
  by (cases "gst_video_sink E (Gst (Get_video_sink (mPipeline s)) # trace s)")
    (simp_all add: hook_sink_def ask_def Let_def keep_quiet close_keeps keep_sink keep_no_sink)

lemma preroll_pipeline_keeps:
  assumes "I s"
  shows "I (snd (preroll_pipeline E V d s))"
proof -
  define s1 where "s1 = snd (hook_sink E V d s)"
  define s2 where
    "s2 = snd (force_state E V GST_STATE_READY ''Failed to put pipeline in READY state.'' (setupClock V s1))"
  define s3 where
    "s3 = snd (force_state E V GST_STATE_PAUSED ''Failed to put pipeline in PAUSE state.'' s2)"
  have "I s1" unfolding s1_def by (rule hook_sink_keeps [OF assms])
  then have "I s2" unfolding s2_def by (intro force_state_keeps hook_clock)
  then have "I s3" unfolding s3_def by (rule force_state_keeps)
  have "snd (preroll_pipeline E V d s) \<in> {s1, s2, s3, s3\<lparr>mDuration := Discoverer_getDuration d\<rparr>}"
    unfolding preroll_pipeline_def s1_def s2_def s3_def Let_def split_beta by simp
  then show ?thesis using \<open>I s1\<close> \<open>I s2\<close> \<open>I s3\<close> keep_duration [OF \<open>I s3\<close>] by auto
qed

lemma launch_keeps:
  assumes "I s" and "mPipeline s = None" and "mGstBus s = None"
  shows "I (snd (launch E V d cmd s))"
proof -
  let ?e = "Gst (Parse_launch (c_str cmd))"
  obtain p err where pe: "gst_parse_launch E (?e # trace s) = (p, err)" by fastforce
  define t where "t = (emit ?e s)\<lparr>mPipeline := p\<rparr>"
  define e where "e = Gst (Pipeline_get_bus p)"
  define b where "b = gst_pipeline_get_bus E (e # trace t)"
  have t: "I t" using keep_launch [OF assms(1,2) HOL.refl pe] by (simp add: t_def)
  have "mGstBus t = None" "mPipeline t = p" using assms(3) by (simp_all add: t_def)
  then have u: "I ((emit e t)\<lparr>mGstBus := b\<rparr>)" using keep_bus [OF t] by (simp add: e_def b_def)
  have "snd (launch E V d cmd s) =
    (if p = None then log_error err ''Unable to launch the pipeline'' (close E V t)
     else if b = None then
       log_error err ''Unable to obtain pipeline's event bus'' (close E V ((emit e t)\<lparr>mGstBus := b\<rparr>))
     else snd (preroll_pipeline E V d ((emit e t)\<lparr>mGstBus := b\<rparr>)))"
    using pe by (simp add: launch_def ask_def Let_def t_def e_def b_def)
  then show ?thesis
    by (simp only:) (intro if_pred [of I] log_error_keeps close_keeps preroll_pipeline_keeps t u)
qed

text \<open>Opening starts from the closed player: the hook before it leaves pipeline and bus alone.\<close>

lemma open_sized_keeps:
  assumes "I s"
  shows "I (snd (open_sized E V path width height fmt s))"
proof -
  obtain ok s1 where init: "gstreamerInitialized E s = (ok, s1)" by fastforce
  define s2 where "s2 = onBeforeOpen V (close E V s1)"
  obtain found d s3 where disc: "Discoverer_open E path new_discoverer s2 = (found, d, s3)"
    by (metis prod.exhaust)
  have s1: "I s1" using quietly_gstreamerInitialized [OF init] assms by (rule keep_quietly)
  then have s2: "I s2" unfolding s2_def by (intro hook_open close_keeps)
  have q: "quietly s2 s3" by (rule quietly_Discoverer_open [OF disc])
  then have s3: "I s3" using s2 by (rule keep_quietly)
  have "mPipeline s2 = None \<and> mGstBus s2 = None"
    by (simp add: s2_def open_pipeline open_bus close_def Player_reset_def Let_def)
  then have closed: "mPipeline s3 = None" "mGstBus s3 = None" using quietly_frame [OF q] by auto
  have "snd (open_sized E V path width height fmt s) =
    (if \<not> ok then NSVR_LOG ''Player requires GStreamer to be initialized.'' s1
     else if path = [] then NSVR_LOG ''Path given to Player is empty.'' s2
     else if found then
       (case pipeline_cmd d width height fmt of
          None \<Rightarrow> NSVR_LOG ''Media provided does not contain neither audio nor video.'' s3
        | Some cmd \<Rightarrow> snd (launch E V d cmd s3))
     else s3)"
    using init disc by (simp add: open_sized_def Let_def s2_def split: option.split)
  also have "I \<dots>"
    using launch_keeps [OF s3 closed]
    by (intro if_pred [of I] keep_quiet s1 s2 s3)
      (auto split: option.split intro: keep_quiet [OF s3])
  finally show ?thesis .
qed

lemma open_bgra_keeps: "I s \<Longrightarrow> I (snd (open_bgra E V path width height s))"
  by (simp add: open_bgra_def open_sized_keeps)

lemma open_fmt_keeps: "I s \<Longrightarrow> I (snd (open_fmt E V path fmt s))"
  by (auto simp: open_fmt_def Let_def split: prod.split
      intro: open_sized_keeps Discoverer_open_keeps)

lemma open_auto_keeps: "I s \<Longrightarrow> I (snd (open_auto E V path s))"
  by (auto simp: open_auto_def Let_def split: prod.split
      intro: open_bgra_keeps Discoverer_open_keeps)

section \<open>The update loop keeps the invariant\<close>

lemma other_message_keeps: "I s \<Longrightarrow> m \<noteq> Msg_async_done \<Longrightarrow> I (handle_message E V m s)"
  unfolding handle_message_def Let_def
  by (cases m) (simp_all add: log_message_keeps keep_state hook_changed keep_quiet
      queryDuration_keeps replay_keeps pause_keeps hook_end)

lemma async_done_keeps: "I (s\<lparr>mSeekingLock := False\<rparr>) \<Longrightarrow> I (handle_message E V Msg_async_done s)"
  by (simp add: handle_message_async_done Let_def hook_seek hook_time)

lemma pop_keeps:
  assumes "I s" and "b = mGstBus s" and "gst_bus_pop E (Gst (Bus_pop b) # trace s) = Some m"
  shows "I (handle_message E V m (emit (Gst (Bus_pop b)) s))"
  using assms keep_done [of s b] keep_pop [of s b]
  by (cases "m = Msg_async_done") (simp_all add: async_done_keeps other_message_keeps)

lemma bus_loop_keeps: "I s \<Longrightarrow> I (bus_loop n E V s)"
proof (induction n arbitrary: s)
  case 0
  then show ?case by (simp add: keep_quiet)
next
  case (Suc n)
  let ?t = "emit (Gst (Bus_have_pending (mGstBus s))) s"
  have t: "I ?t" using Suc.prems by (simp add: keep_quiet)
  have "I (bus_loop n E V (emit (Gst Message_unref) (handle_message E V m
    (emit (Gst (Bus_pop (mGstBus s))) ?t))))"
    if "gst_bus_pop E (Gst (Bus_pop (mGstBus s)) # trace ?t) = Some m" for m
    using pop_keeps [OF t _ that] by (simp add: Suc.IH keep_quiet)
  moreover have "I (bus_loop n E V (emit (Gst (Bus_pop (mGstBus s))) ?t))"
    if "gst_bus_pop E (Gst (Bus_pop (mGstBus s)) # trace ?t) = None"
    using keep_pop [OF t HOL.refl] that by (intro Suc.IH) simp
  ultimately show ?case using t by (simp add: ask_def Let_def split: option.split)
qed

lemma consume_frame_keeps: "I s \<Longrightarrow> I (consume_frame V s)"
  using keep_shown [OF hook_frame] by (simp add: consume_frame_def Let_def)

lemma update_keeps: "I s \<Longrightarrow> I (update E V s)"
  unfolding update_def Let_def
  by (intro consume_frame_keeps if_pred [of I] bus_loop_keeps hook_update)

lemmas operations_keep =
  open_sized_keeps open_bgra_keeps open_fmt_keeps open_auto_keeps close_keeps stop_keeps play_keeps
  replay_keeps pause_keeps update_keeps setState_keeps queryState_keeps setLoop_keeps hook_time
  getTime_keeps setVolume_keeps getVolume_keeps setMute_keeps keep_preroll keep_sample

lemma exec_op_keeps: "I s \<Longrightarrow> I (exec_op E V p s)"
  by (cases p) (simp_all add: operations_keep)

lemma run_keeps: "I s \<Longrightarrow> I (run E V ops s)"
  unfolding run_def by (induction ops arbitrary: s) (simp_all add: exec_op_keeps)

end

text \<open>The hooks of \<open>Player\<close> itself do nothing, and its \<open>setTime\<close> is made of the effects: what the
  effects keep, a plain player keeps.\<close>

sublocale player_effects \<subseteq> plain: player_contract E I "player_vtable E"
  by unfold_locales (simp_all add: player_vtable_def Player_setTime_keeps)

end
