(* ===== verification/Player_Invariants.thy ===== *)
theory Player_Invariants
  imports Player_Contract
begin

text \<open>
  The invariants of the player, for every sequence of calls and of streaming-thread callbacks and
  every environment: the one-frame slot, the seek protocol (at most one flushing seek under way)
  and the ownership of every GStreamer reference (none leaked, none released twice, none used
  after its release). Each is an interpretation of \<open>player_effects\<close>.
\<close>

section \<open>The constructor\<close>

lemma Player_ctor_fields [simp]:
  "mPipeline (Player_ctor E s) = None" "mGstBus (Player_ctor E s) = None"
  "mCurrentSample (Player_ctor E s) = None" "mCurrentBuffer (Player_ctor E s) = None"
  "mBufferDirty (Player_ctor E s) = False" "mSeekingLock (Player_ctor E s) = False"
  by (auto simp: Player_ctor_def gstreamerInitialized_def Player_reset_def ask_def Let_def
      split: prod.split)

lemma Player_ctor_trace:
  "trace s = [] \<Longrightarrow> list_all (\<lambda>e. quiet e \<and> fits None None e) (trace (Player_ctor E s))"
  by (auto simp: Player_ctor_def gstreamerInitialized_def Player_reset_def ask_def Let_def
      split: prod.split)

section \<open>The frame slot\<close>

definition slot_ok :: "'a player_scheme \<Rightarrow> bool" where
  "slot_ok s \<longleftrightarrow> (mBufferDirty s \<longleftrightarrow> mCurrentSample s \<noteq> None) \<and>
     (\<not> mBufferDirty s \<longrightarrow> mCurrentBuffer s = None)"

lemma read_caps_player [simp]:
  "mCurrentSample (read_caps c s) = mCurrentSample s" "mCurrentBuffer (read_caps c s) = mCurrentBuffer s"
  "mBufferDirty (read_caps c s) = mBufferDirty s" "mPipeline (read_caps c s) = mPipeline s"
  "mGstBus (read_caps c s) = mGstBus s" "mSeekingLock (read_caps c s) = mSeekingLock s"
  by (simp_all add: read_caps_def Let_def split: caps.split option.split)

lemma trace_read_caps: "trace (read_caps c s) = trace s \<or> (\<exists>m. trace (read_caps c s) = Logged m # trace s)"
  by (simp add: read_caps_def Let_def split: caps.split option.split)

lemma slot_ok_simps [simp]:
  "slot_ok (emit e s) = slot_ok s" "slot_ok (read_caps c s) = slot_ok s"
  by (simp_all add: slot_ok_def)

lemma slot_ok_processSample: "slot_ok s \<Longrightarrow> slot_ok (processSample E x s)"
  by (simp add: processSample_def slot_ok_def ask_def Let_def)

lemma slot_ok_onSample: "slot_ok s \<Longrightarrow> slot_ok (onSample E s)"
  by (simp add: onSample_def ask_def Let_def slot_ok_processSample split: option.split)

lemma slot_ok_onPreroll: "slot_ok s \<Longrightarrow> slot_ok (onPreroll E s)"
  by (simp add: onPreroll_def ask_def Let_def slot_ok_processSample split: option.split)

interpretation frame_slot: player_effects E slot_ok for E
  by unfold_locales
    (simp_all add: slot_ok_onPreroll slot_ok_onSample, simp_all add: slot_ok_def Player_reset_def)

section \<open>The seek protocol\<close>

text \<open>Whether a flushing seek is under way, read off the history: a seek that GStreamer accepted,
  and since then neither its \<open>ASYNC_DONE\<close> taken off the bus nor the pipeline released.\<close>

fun outstanding :: "env \<Rightarrow> event list \<Rightarrow> bool" where
  "outstanding E [] = False"
| "outstanding E (e # h) =
     (case e of
        Gst (Seek_simple p ns) \<Rightarrow> gst_element_seek_simple E (e # h) \<or> outstanding E h
      | Gst (Bus_pop b) \<Rightarrow> gst_bus_pop E (e # h) \<noteq> Some Msg_async_done \<and> outstanding E h
      | Gst (Pipeline_unref p) \<Rightarrow> False
      | _ \<Rightarrow> outstanding E h)"

text \<open>Every seek is issued when no other one is under way.\<close>

fun one_seek :: "env \<Rightarrow> event list \<Rightarrow> bool" where
  "one_seek E [] = True"
| "one_seek E (e # h) =
     ((case e of Gst (Seek_simple p ns) \<Rightarrow> \<not> outstanding E h | _ \<Rightarrow> True) \<and> one_seek E h)"

definition seek_ok :: "env \<Rightarrow> 'a player_scheme \<Rightarrow> bool" where
  "seek_ok E s \<longleftrightarrow> mSeekingLock s = outstanding E (trace s) \<and> one_seek E (trace s) \<and>
     (mPipeline s = None \<longrightarrow> \<not> mSeekingLock s)"

lemma seek_quiet:
  "quiet e \<Longrightarrow> outstanding E (e # h) = outstanding E h \<and> one_seek E (e # h) = one_seek E h"
  by (cases e rule: quiet.cases) auto

lemma seek_read_caps [simp]:
  "outstanding E (trace (read_caps c s)) = outstanding E (trace s)"
  "one_seek E (trace (read_caps c s)) = one_seek E (trace s)"
  using trace_read_caps [of c s] by auto

lemma seek_ok_onSample: "seek_ok E s \<Longrightarrow> seek_ok E (onSample E s)"
  by (auto simp: seek_ok_def onSample_def processSample_def ask_def Let_def split: option.split)

lemma seek_ok_onPreroll: "seek_ok E s \<Longrightarrow> seek_ok E (onPreroll E s)"
  by (auto simp: seek_ok_def onPreroll_def processSample_def ask_def Let_def split: option.split)

lemma release_cases: "release f p s = (case p of None \<Rightarrow> s | Some x \<Rightarrow> emit (Gst (f (Some x))) s)"
  by (simp add: release_def split: option.split)

interpretation seeks: player_effects E "seek_ok E" for E
proof
  fix s :: "'b player_scheme" and e
  assume "seek_ok E s" "quiet e"
  then show "seek_ok E (emit e s)" using seek_quiet [of e E "trace s"]
    by (auto simp: seek_ok_def simp del: outstanding.simps one_seek.simps)
qed (simp_all add: seek_ok_onPreroll seek_ok_onSample,
    auto simp: seek_ok_def Player_reset_def release_cases split: option.split)

section \<open>Ownership\<close>

datatype resource = R_pipeline | R_bus | R_sink | R_sample | R_map

text \<open>The reference an event acquires, as far as its answer grants one; the one it gives back; the
  ones it needs.\<close>

fun acquires :: "env \<Rightarrow> event \<Rightarrow> event list \<Rightarrow> (resource \<times> ptr)" where
  "acquires E (Gst (Parse_launch c)) h = (R_pipeline, fst (gst_parse_launch E (Gst (Parse_launch c) # h)))"
| "acquires E (Gst (Pipeline_get_bus p)) h = (R_bus, gst_pipeline_get_bus E (Gst (Pipeline_get_bus p) # h))"
| "acquires E (Gst (Get_video_sink p)) h = (R_sink, gst_video_sink E (Gst (Get_video_sink p) # h))"
| "acquires E (Gst Pull_preroll) h = (R_sample, gst_pull_preroll E (Gst Pull_preroll # h))"
| "acquires E (Gst Pull_sample) h = (R_sample, gst_pull_sample E (Gst Pull_sample # h))"
| "acquires E (Gst (Buffer_map b)) h = (R_map, b)"
| "acquires E e h = (R_map, None)"

fun drops :: "event \<Rightarrow> resource \<times> ptr" where
  "drops (Gst (Pipeline_unref p)) = (R_pipeline, p)"
| "drops (Gst (Bus_unref p)) = (R_bus, p)"
| "drops (Gst (Sink_unref p)) = (R_sink, p)"
| "drops (Gst (Sample_unref p)) = (R_sample, p)"
| "drops (Gst (Buffer_unmap p)) = (R_map, p)"
| "drops e = (R_map, None)"

fun needs :: "event \<Rightarrow> resource \<times> ptr" where
  "needs (Gst (Pipeline_get_bus p)) = (R_pipeline, p)"
| "needs (Gst (Get_video_sink p)) = (R_pipeline, p)"
| "needs (Gst (Set_state p st)) = (R_pipeline, p)"
| "needs (Gst (Get_state p)) = (R_pipeline, p)"
| "needs (Gst (Seek_simple p ns)) = (R_pipeline, p)"
| "needs (Gst (Query_position p)) = (R_pipeline, p)"
| "needs (Gst (Query_duration p)) = (R_pipeline, p)"
| "needs (Gst (Set_volume p v)) = (R_pipeline, p)"
| "needs (Gst (Get_volume p)) = (R_pipeline, p)"
| "needs (Gst (Bus_have_pending b)) = (R_bus, b)"
| "needs (Gst (Bus_pop b)) = (R_bus, b)"
| "needs (Gst (Set_callbacks k)) = (R_sink, k)"
| "needs (Gst (Sample_caps x)) = (R_sample, x)"
| "needs (Gst (Sample_get_buffer x)) = (R_sample, x)"
| "needs (Clk (Pipeline_get_clock p)) = (R_pipeline, p)"
| "needs (Clk (Use_clock p c)) = (R_pipeline, p)"
| "needs (Clk (Set_start_time p)) = (R_pipeline, p)"
| "needs (Clk (Set_base_time p t)) = (R_pipeline, p)"
| "needs (Clk (Get_base_time p)) = (R_pipeline, p)"
| "needs e = drops e"

text \<open>How many references to \<open>p\<close> of kind \<open>r\<close> are owned after a history.\<close>

fun balance :: "env \<Rightarrow> event list \<Rightarrow> resource \<Rightarrow> nat \<Rightarrow> int" where
  "balance E [] r p = 0"
| "balance E (e # h) r p = balance E h r p + count_ref (acquires E e h) r p - count_ref (drops e) r p"

fun owned :: "env \<Rightarrow> event list \<Rightarrow> resource \<times> ptr \<Rightarrow> bool" where
  "owned E h (r, None) = True"
| "owned E h (r, Some p) = (0 < balance E h r p)"

text \<open>Every reference that is used or given back is owned at that moment.\<close>

fun lawful :: "env \<Rightarrow> event list \<Rightarrow> bool" where
  "lawful E [] = True"
| "lawful E (e # h) =
     (owned E h (needs e) \<and> lawful E h)"

text \<open>What the player's members hold.\<close>

definition held :: "'a player_scheme \<Rightarrow> resource \<Rightarrow> nat \<Rightarrow> int" where
  "held s r p = count_ref (R_pipeline, mPipeline s) r p + count_ref (R_bus, mGstBus s) r p +
     count_ref (R_sample, mCurrentSample s) r p + count_ref (R_map, mCurrentBuffer s) r p"

definition owner_ok :: "env \<Rightarrow> 'a player_scheme \<Rightarrow> bool" where
  "owner_ok E s \<longleftrightarrow> slot_ok s \<and> lawful E (trace s) \<and>
     (\<forall>r p. balance E (trace s) r p = held s r p)"

lemma quiet_neutral: "quiet e \<Longrightarrow> snd (acquires E e h) = None \<and> snd (drops e) = None"
  by (cases e rule: quiet.cases) auto

lemma quiet_balance: "quiet e \<Longrightarrow> balance E (e # h) r p = balance E h r p"
  using quiet_neutral [of e E h]
  by (cases "acquires E e h"; cases "drops e") (simp del: acquires.simps drops.simps)

lemma fits_needs:
  "quiet e \<Longrightarrow> fits p b e \<Longrightarrow> snd (needs e) = None \<or> needs e = (R_pipeline, p) \<or> needs e = (R_bus, b)"
  by (cases e rule: needs.cases) auto

lemma held_pos:
  "mPipeline s = Some p \<Longrightarrow> 0 < held s R_pipeline p" "mGstBus s = Some p \<Longrightarrow> 0 < held s R_bus p"
  by (simp_all add: held_def add_pos_nonneg)

lemma held_emit [simp]: "held (emit e s) = held s"
  by (intro ext) (simp add: held_def)

lemma owner_ok_quiet:
  assumes "owner_ok E s" and "quiet e" and "fits (mPipeline s) (mGstBus s) e"
  shows "owner_ok E (emit e s)"
proof -
  have "owned E (trace s) (needs e)"
    using fits_needs [OF assms(2,3)] assms(1) held_pos [of s]
    by (cases "(E, trace s, needs e)" rule: owned.cases) (auto simp: owner_ok_def)
  then show ?thesis using assms(1) quiet_balance [OF assms(2)]
    by (simp add: owner_ok_def del: balance.simps)
qed

lemma owner_read_caps [simp]:
  "balance E (trace (read_caps c s)) r p = balance E (trace s) r p"
  "lawful E (trace (read_caps c s)) = lawful E (trace s)"
  using trace_read_caps [of c s] by auto

lemma held_read_caps [simp]: "held (read_caps c s) = held s"
  by (intro ext) (simp add: held_def)

text \<open>A sample that has been pulled is owned by its caller until \<open>processSample\<close> takes it over.\<close>

lemma owner_ok_processSample:
  assumes "slot_ok s" and "lawful E (trace s)"
    and "\<And>r p. balance E (trace s) r p = held s r p + count_ref (R_sample, Some x) r p"
  shows "owner_ok E (processSample E x s)"
  using assms
  by (auto simp: owner_ok_def slot_ok_processSample processSample_def ask_def Let_def held_def slot_ok_def
      add_pos_nonneg add_nonneg_pos split: option.split)

text \<open>A sample pulled, or not.\<close>

lemma owner_ok_pull:
  assumes "owner_ok E s" and "e = Gst Pull_preroll \<or> e = Gst Pull_sample"
  shows "slot_ok (emit e s)" "lawful E (trace (emit e s))"
    "balance E (trace (emit e s)) r p = held (emit e s) r p + count_ref (acquires E e (trace s)) r p"
  using assms by (auto simp: owner_ok_def)

lemma owner_ok_onSample:
  assumes "owner_ok E s"
  shows "owner_ok E (onSample E s)"
proof (cases "gst_pull_sample E (Gst Pull_sample # trace s)")
  case None
  then show ?thesis using owner_ok_pull [OF assms, of "Gst Pull_sample"]
    by (simp add: onSample_def ask_def owner_ok_def)
next
  case (Some x)
  then show ?thesis using owner_ok_pull [OF assms, of "Gst Pull_sample"]
    by (simp add: onSample_def ask_def owner_ok_processSample)
qed

lemma owner_ok_onPreroll:
  assumes "owner_ok E s"
  shows "owner_ok E (onPreroll E s)"
proof (cases "gst_pull_preroll E (Gst Pull_preroll # trace s)")
  case None
  then show ?thesis using owner_ok_pull [OF assms, of "Gst Pull_preroll"]
    by (simp add: onPreroll_def ask_def owner_ok_def)
next
  case (Some x)
  have "owner_ok E (processSample E x (read_caps c (emit (Gst (Sample_caps (Some x)))
    (emit (Gst Pull_preroll) s))))" for c
    by (rule owner_ok_processSample)
      (use owner_ok_pull [OF assms, of "Gst Pull_preroll"] Some in
        \<open>auto simp: held_def add_nonneg_pos\<close>)
  then show ?thesis using Some by (simp add: onPreroll_def ask_def Let_def)
qed

lemma owner_ok_holds:
  assumes "owner_ok E s"
  shows "owned E (trace s) (R_pipeline, mPipeline s)" "owned E (trace s) (R_bus, mGstBus s)"
  using assms held_pos [of s] by (cases "mPipeline s"; cases "mGstBus s"; simp add: owner_ok_def)+

lemma owner_ok_neutral:
  assumes "owner_ok E s" and "owned E (trace s) (needs e)"
    and "snd (acquires E e (trace s)) = None" and "snd (drops e) = None"
  shows "owner_ok E (emit e s)"
  using assms
  by (cases "acquires E e (trace s)"; cases "drops e") (simp add: owner_ok_def)

lemma owner_ok_close:
  assumes "owner_ok E s"
  shows "owner_ok E (Player_reset (release Sample_unref (mCurrentSample s)
    (release Buffer_unmap (mCurrentBuffer s) (release Bus_unref (mGstBus s)
      (release Pipeline_unref (mPipeline s) s)))))"
  using assms
  by (cases "mPipeline s"; cases "mGstBus s"; cases "mCurrentSample s"; cases "mCurrentBuffer s")
    (simp_all add: owner_ok_def slot_ok_def held_def Player_reset_def release_cases)

lemma owner_ok_shown:
  assumes "owner_ok E s"
  shows "owner_ok E ((release Sample_unref (mCurrentSample s) (release Buffer_unmap (mCurrentBuffer s) s))
    \<lparr>mCurrentBuffer := None, mCurrentSample := None, mBufferDirty := False\<rparr>)"
  using assms
  by (cases "mCurrentSample s"; cases "mCurrentBuffer s")
    (simp_all add: owner_ok_def slot_ok_def held_def release_cases add_nonneg_pos)

lemma owner_ok_update [simp]:
  "owner_ok E (s\<lparr>mState := x\<rparr>) = owner_ok E s" "owner_ok E (s\<lparr>mTime := t\<rparr>) = owner_ok E s"
  "owner_ok E (s\<lparr>mDuration := t\<rparr>) = owner_ok E s" "owner_ok E (s\<lparr>mVolume := t\<rparr>) = owner_ok E s"
  "owner_ok E (s\<lparr>mMute := b\<rparr>) = owner_ok E s" "owner_ok E (s\<lparr>mLoop := b\<rparr>) = owner_ok E s"
  "owner_ok E (s\<lparr>saved_volume := t\<rparr>) = owner_ok E s" "owner_ok E (s\<lparr>mPendingSeek := t\<rparr>) = owner_ok E s"
  "owner_ok E (s\<lparr>mSeekingLock := b\<rparr>) = owner_ok E s"
  by (simp_all add: owner_ok_def slot_ok_def held_def)

lemma owner_ok_launch:
  assumes "owner_ok E s" and "mPipeline s = None"
    and "gst_parse_launch E (Gst (Parse_launch c) # trace s) = (q, err)"
  shows "owner_ok E ((emit (Gst (Parse_launch c)) s)\<lparr>mPipeline := q\<rparr>)"
  using assms by (simp add: owner_ok_def slot_ok_def held_def)

lemma owner_ok_bus:
  assumes "owner_ok E s" and "mGstBus s = None" and "e = Gst (Pipeline_get_bus (mPipeline s))"
  shows "owner_ok E ((emit e s)\<lparr>mGstBus := gst_pipeline_get_bus E (e # trace s)\<rparr>)"
  using assms owner_ok_holds [OF assms(1)] by (simp add: owner_ok_def slot_ok_def held_def)

lemma owner_ok_sink:
  assumes "owner_ok E s" and "gst_video_sink E (Gst (Get_video_sink (mPipeline s)) # trace s) = Some k"
  shows "owner_ok E (emit (Gst (Sink_unref (Some k))) (emit (Gst (Set_callbacks (Some k)))
    (emit (Gst (Get_video_sink (mPipeline s))) s)))"
  using assms owner_ok_holds [OF assms(1)]
  by (simp add: owner_ok_def held_def add_nonneg_pos)

lemma owner_ok_seek:
  assumes "owner_ok E s" and "mPipeline s = Some p"
  shows "owner_ok E (emit (Gst (Seek_simple (Some p) ns)) s)"
  using owner_ok_neutral [OF assms(1), of "Gst (Seek_simple (Some p) ns)"] owner_ok_holds(1) [OF assms(1)]
    assms(2) by simp

interpretation ownership: player_effects E "owner_ok E" for E
  by unfold_locales
    (simp_all add: owner_ok_quiet owner_ok_onSample owner_ok_onPreroll owner_ok_launch owner_ok_bus
      owner_ok_sink owner_ok_close owner_ok_shown owner_ok_neutral owner_ok_holds owner_ok_seek)

section \<open>Every run of a player\<close>

text \<open>A player constructed in a fresh process starts within the invariants.\<close>

lemma quiet_history:
  "list_all (\<lambda>e. quiet e \<and> fits None None e) h \<Longrightarrow>
     \<not> outstanding E h \<and> one_seek E h \<and> lawful E h \<and> (\<forall>r p. balance E h r p = 0)"
proof (induction h)
  case (Cons e h)
  then have e: "quiet e" "fits None None e" by simp_all
  have "owned E h (needs e)" using fits_needs [OF e] by (cases "needs e") auto
  then show ?case using Cons seek_quiet [OF e(1), of E h] quiet_balance [OF e(1), of E h]
    by (simp del: outstanding.simps one_seek.simps balance.simps)
qed simp

lemma fresh_player:
  assumes "trace s = []"
  shows "slot_ok (Player_ctor E s)" "seek_ok E (Player_ctor E s)" "owner_ok E (Player_ctor E s)"
  using quiet_history [OF Player_ctor_trace [OF assms, of E]]
  by (simp_all add: slot_ok_def seek_ok_def owner_ok_def held_def)

text \<open>A run that opens a player, shows a frame, seeks twice and drops a frame.\<close>

definition demo_ops :: "player_op list" where
  "demo_ops = [Op_open ''a.mp4'' 640 480 ''BGRA'', Op_preroll, Op_update, Op_play, Op_setTime (Fin False 3),
     Op_setTime (Fin False 4), Op_sample, Op_sample]"

lemma trace_fresh_storage: "trace fresh_storage = []"
  by (simp add: fresh_storage_def)

text \<open>The frame slot. However calls of the user and callbacks of the streaming thread follow
  each other, the dirty flag says exactly whether the player holds a sample, and a clean slot holds
  no mapped buffer either: the streaming thread never overwrites a frame, the user never reads an
  empty slot.\<close>

lemma frame_slot_invariant:
  assumes "trace s = []" and "t = run E (player_vtable E) ops (Player_ctor E s)"
  shows "(mBufferDirty t \<longleftrightarrow> mCurrentSample t \<noteq> None) \<and> (\<not> mBufferDirty t \<longrightarrow> mCurrentBuffer t = None)"
  using frame_slot.plain.run_keeps [OF fresh_player(1) [OF assms(1)]]
  by (simp add: assms(2) slot_ok_def)







end
