(* ===== verification/Player_Properties.thy ===== *)
theory Player_Properties
  imports Player_Invariants "HOL-Library.Sublist"
begin

text \<open>
  What the single operations of the player do, on every branch: seeking and its deferral, opening
  and closing, muting, the end of a stream, and the termination of the message loop.
\<close>

section \<open>Seeking\<close>

lemma clamp_low: "x \<le> 0 \<Longrightarrow> 0 \<le> h \<Longrightarrow> \<not> feq h 0 \<Longrightarrow> x \<noteq> NaN \<Longrightarrow> feq (clamp x 0 h) 0"
  by (cases x; cases h) (auto simp: clamp_def double_order_defs zero_double_def split: if_splits)

lemma clamp_high: "h \<le> x \<Longrightarrow> 0 \<le> h \<Longrightarrow> feq (clamp x 0 h) h"
  by (cases x; cases h) (auto simp: clamp_def double_order_defs zero_double_def split: if_splits)


lemma ten_seconds: "double_to_int64 (Fin False 10 * GST_SECOND) = Some 10000000000"
  by (simp add: double_to_int64_def GST_SECOND_def to_double_def round_to_def round_exp_def ilog_def
      ndigits.simps round_half_even_def DBL_OVERFLOW_def Let_def)

lemma ten_wf: "wf_double (Fin False 10)"
proof -
  have "Fin False 10 = int_to_double 10" by (simp add: int_to_double_exact)
  then show ?thesis by (simp add: int_to_double_def)
qed


lemma setTime_locked:
  "mPipeline s \<noteq> None \<Longrightarrow> mSeekingLock s \<Longrightarrow> Player_setTime E t s = s\<lparr>mPendingSeek := t\<rparr>"
  by (auto simp: Player_setTime_def)

lemma setTimes_locked:
  assumes "mPipeline s \<noteq> None" and "mSeekingLock s" and "ts \<noteq> []"
  shows "fold (Player_setTime E) ts s = s\<lparr>mPendingSeek := last ts\<rparr>"
  using assms(3)
proof (induction ts rule: rev_nonempty_induct)
  case (snoc t ts)
  then show ?case using setTime_locked [of "s\<lparr>mPendingSeek := last ts\<rparr>"] assms(1,2) by simp
qed (use setTime_locked assms(1,2) in simp)

text \<open>The deferred seek. While a seek is under way, any number of calls of \<open>setTime\<close> issue no
  seek at all; the \<open>ASYNC_DONE\<close> of the seek then carries out the last of them, and only that one,
  provided its time is not negative.\<close>

lemma last_deferred_seek_wins:
  assumes "mPipeline s \<noteq> None" and "mSeekingLock s" and "ts \<noteq> []"
    and "V = player_vtable E"
  shows "handle_message E V Msg_async_done (fold (setTime V) ts s) =
    (let t = s\<lparr>mPendingSeek := last ts, mSeekingLock := False\<rparr> in
     if 0 \<le> last ts then Player_setTime E (last ts) t else t)"
proof -
  have "fold (setTime V) ts s = s\<lparr>mPendingSeek := last ts\<rparr>"
    using setTimes_locked [OF assms(1-3)] by (simp add: assms(4) player_vtable_def)
  then show ?thesis
    by (simp add: handle_message_async_done assms(4) player_vtable_def Let_def)
qed

section \<open>Closing and opening\<close>

lemma plain_hooks [simp]:
  "onBeforeClose (player_vtable E) s = s" "onBeforeOpen (player_vtable E) s = s"
  "onBeforeSetState (player_vtable E) st s = s" "onStateChanged (player_vtable E) st s = s"
  "onStreamEnd (player_vtable E) s = s" "setupClock (player_vtable E) s = s"
  "onSeekFinished (player_vtable E) s = s" "onBeforeUpdate (player_vtable E) s = s"
  "onVideoFrame (player_vtable E) d n s = s" "setTime (player_vtable E) = Player_setTime E"
  by (simp_all add: player_vtable_def)

lemma close_fields [simp]:
  "mPipeline (close E V s) = None" "mGstBus (close E V s) = None"
  "mCurrentSample (close E V s) = None" "mCurrentBuffer (close E V s) = None"
  "mState (close E V s) = GST_STATE_NULL" "mDuration (close E V s) = 0"
  "mSeekingLock (close E V s) = False" "mBufferDirty (close E V s) = False"
  by (simp_all add: close_def Let_def Player_reset_def)

text \<open>Closing twice is closing once: the second call does nothing at all, it makes no call of
  GStreamer either.\<close>

lemma close_idempotent:
  "close E (player_vtable E) (close E (player_vtable E) s) = close E (player_vtable E) s"
  (is "close E ?V ?t = ?t")
proof -
  have "close E ?V t = Player_reset t"
    if "mPipeline t = None" "mGstBus t = None" "mCurrentBuffer t = None" "mCurrentSample t = None" for t
    using that by (simp add: close_def stop_def setState_def release_def)
  then have "close E ?V ?t = Player_reset ?t" by simp
  also have "\<dots> = ?t" by (simp add: close_def Player_reset_def Let_def)
  finally show ?thesis .
qed

lemma launch_fields:
  assumes "launch E (player_vtable E) d cmd s = (ok, t)"
  shows "if ok then mPipeline t \<noteq> None \<and> mGstBus t \<noteq> None \<and> mDuration t = Discoverer_getDuration d
         else mPipeline t = None \<and> mGstBus t = None"
  using assms
  by (auto simp: launch_def preroll_pipeline_def hook_sink_def force_state_def log_error_def ask_def
      Let_def split: if_splits prod.splits)

text \<open>C34: what \<open>open\<close> leaves behind once GStreamer is initialised. A player is never left half open.
  When \<open>open\<close> answers false, the player holds neither pipeline nor bus, and a player that was open
  before has been closed. When it answers true and the media has been discovered, pipeline and bus
  are there and the duration is the one discovered. But it also answers true when the discovery
  failed, leaving a closed player.\<close>

theorem open_all_or_nothing:
  assumes "gstreamerInitialized E s = (True, s1)"
    and "open_sized E (player_vtable E) path width height fmt s = (ok, t)"
  shows "(\<not> ok \<longrightarrow> mPipeline t = None \<and> mGstBus t = None) \<and>
    (ok \<longrightarrow> (let (found, d, s2) = Discoverer_open E path new_discoverer (close E (player_vtable E) s1) in
       if found then mPipeline t \<noteq> None \<and> mGstBus t \<noteq> None \<and> mDuration t = Discoverer_getDuration d
       else mPipeline t = None \<and> mGstBus t = None))"
proof -
  obtain found d s2 where d: "Discoverer_open E path new_discoverer (close E (player_vtable E) s1) = (found, d, s2)"
    by (metis prod.exhaust)
  have s2: "mPipeline s2 = None" "mGstBus s2 = None"
    using quietly_frame [OF quietly_Discoverer_open [OF d]] by auto
  show ?thesis using assms d s2
    by (auto simp: open_sized_def Let_def split: if_splits option.splits dest: launch_fields)
qed

theorem open_all_or_nothing_witness:
  "\<exists>ok t. open_sized calm (player_vtable calm) ''a.mp4'' 640 480 ''BGRA'' fresh_storage = (ok, t) \<and>
    (\<not> ok \<longrightarrow> mPipeline t = None \<and> mGstBus t = None)"
proof -
  have i: "gstreamerInitialized calm fresh_storage = (True, emit (Gst Is_initialized) fresh_storage)"
    by (simp add: gstreamerInitialized_def ask_def)
  obtain ok t where o: "open_sized calm (player_vtable calm) ''a.mp4'' 640 480 ''BGRA'' fresh_storage = (ok, t)"
    by fastforce
  show ?thesis using open_all_or_nothing [OF i o] o by blast
qed

section \<open>Volume and mute\<close>

lemma clamp_id: "0 \<le> v \<Longrightarrow> v \<le> 1 \<Longrightarrow> clamp v 0 1 = v"
  by (cases v) (auto simp: clamp_def double_order_defs zero_double_def one_double_def)

lemma clamp_zero [simp]: "clamp 0 0 1 = 0"
  by (rule clamp_id) (simp_all add: double_order_defs zero_double_def one_double_def)

lemma feq_zero [simp]: "feq 0 0"
  by (simp add: zero_double_def)

text \<open>Muting and unmuting is a round trip: whatever the volume of the pipeline was, the
  pipeline is set to zero and then back to it, and the player is as before, not muted.\<close>

lemma mute_unmute:
  assumes "mPipeline s = Some p" and "gst_get_volume E (Gst (Get_volume (Some p)) # trace s) = v"
    and "0 \<le> v" and "v \<le> 1"
  shows "setMute E False (setMute E True s) =
    s\<lparr>mVolume := v, mMute := False, saved_volume := 1,
      trace := [Gst (Set_volume (Some p) v), Gst (Set_volume (Some p) 0), Gst (Get_volume (Some p))] @ trace s\<rparr>"
  using assms by (simp add: setMute_def setVolume_def getVolume_def getMute_def ask_def emit_def Let_def clamp_id)

text \<open>The volume of a pipeline as its history tells it; \<open>reads_back\<close> is the documented behaviour of
  the \<open>volume\<close> property: reading it yields what was last written, and \<open>1\<close> before that.\<close>

fun volume_of :: "nat \<Rightarrow> event list \<Rightarrow> double" where
  "volume_of p [] = 1"
| "volume_of p (e # h) =
     (case e of Gst (Set_volume q v) \<Rightarrow> if q = Some p then v else volume_of p h | _ \<Rightarrow> volume_of p h)"

definition reads_back :: "env \<Rightarrow> nat \<Rightarrow> bool" where
  "reads_back E p \<longleftrightarrow> (\<forall>h. gst_get_volume E (Gst (Get_volume (Some p)) # h) = volume_of p h)"

text \<open>Muting a muted player forgets its volume. The second call saves the volume zero the first
  one has set, so unmuting leaves the pipeline silent while the player says it is not muted.\<close>

lemma muting_twice_loses_the_volume:
  assumes "mPipeline s = Some p" and "reads_back E p"
    and "t = setMute E False (setMute E True (setMute E True s))"
  shows "\<not> getMute t \<and> mVolume t = 0 \<and> volume_of p (trace t) = 0"
  using assms
  by (simp add: reads_back_def setMute_def setVolume_def getVolume_def getMute_def ask_def Let_def)

definition remembering :: env where
  "remembering = calm\<lparr>gst_get_volume := (\<lambda>h. volume_of 1 (tl h))\<rparr>"

lemma reads_back_remembering: "reads_back remembering 1"
  by (simp add: reads_back_def remembering_def)

lemma setState_plain:
  "mPipeline s = Some p \<Longrightarrow> setState E (player_vtable E) st s = emit (Gst (Set_state (Some p) st)) s"
  by (simp add: setState_def ask_def)

text \<open>A muted player stays silent when it plays: after \<open>play\<close> the pipeline's volume is zero and
  the player is still muted, even when the pipeline is a new one that starts at full volume.\<close>

lemma muted_play_is_silent:
  assumes "mPipeline s = Some p" and "reads_back E p" and "getMute s"
    and "t = play E (player_vtable E) s"
  shows "getMute t \<and> feq (volume_of p (trace t)) 0"
  using assms
  by (auto simp: play_def setState_plain reads_back_def setMute_def setVolume_def getVolume_def
      getMute_def ask_def Let_def)

section \<open>The end of a stream\<close>

text \<open>At the end of a stream a looping player stops and plays again from the start, any other one
  pauses; nothing else changes.\<close>

lemma end_of_stream:
  assumes "mPipeline s = Some p" and "\<not> getMute s"
  shows "handle_message E (player_vtable E) Msg_eos s =
    s\<lparr>trace := (if getLoop s
        then [Gst (Set_state (Some p) GST_STATE_PLAYING), Gst (Set_state (Some p) GST_STATE_READY),
              Gst (Set_state (Some p) GST_STATE_NULL)]
        else [Gst (Set_state (Some p) GST_STATE_PAUSED)]) @ trace s\<rparr>"
  using assms
  by (simp add: handle_message_def replay_def stop_def play_def pause_def setState_plain getMute_def
      getLoop_def emit_def Let_def)

section \<open>Termination of the message loop\<close>

text \<open>A method only ever extends the trace.\<close>

lemma suffix_emit: "suffix h (trace s) \<Longrightarrow> suffix h (trace (emit e s))"
  by (simp add: suffix_ConsI)

lemma suffix_read_caps: "suffix h (trace s) \<Longrightarrow> suffix h (trace (read_caps c s))"
  using trace_read_caps [of c s] by (auto intro: suffix_ConsI)

lemma suffix_processSample: "suffix h (trace s) \<Longrightarrow> suffix h (trace (processSample E x s))"
  by (simp add: processSample_def ask_def Let_def suffix_ConsI)

interpretation history: player_effects E "\<lambda>s. suffix h (trace s)" for E h
  by unfold_locales
    (auto simp: Player_reset_def release_cases onPreroll_def onSample_def ask_def Let_def
      intro!: suffix_ConsI suffix_processSample suffix_read_caps split: option.split)

text \<open>How many messages have been asked of the bus.\<close>

fun pops :: "event list \<Rightarrow> nat" where
  "pops [] = 0"
| "pops (e # h) = (case e of Gst (Bus_pop b) \<Rightarrow> Suc (pops h) | _ \<Rightarrow> pops h)"

lemma pops_append: "pops h \<le> pops (xs @ h)"
  by (induction xs) (auto split: event.split gst_call.split)

lemma pops_suffix: "suffix h h' \<Longrightarrow> pops h \<le> pops h'"
  by (auto simp: suffix_def pops_append)

text \<open>C13: the message loop ends. When the bus runs empty after \<open>n\<close> messages at the latest, any
  fuel above the number of messages left gives the same result: the loop has ended by itself,
  with the bus's answer that nothing is pending.\<close>

theorem bus_loop_terminates:
  assumes "\<And>h. n \<le> pops h \<Longrightarrow> \<not> gst_bus_have_pending E h"
    and "n - pops (trace s) < fuel" and "V = player_vtable E"
  shows "\<exists>t. \<not> gst_bus_have_pending E (trace t) \<and> hd (trace t) = Gst (Bus_have_pending (mGstBus t)) \<and>
    (\<forall>m. n - pops (trace s) < m \<longrightarrow> bus_loop m E V s = t)"
  using assms(2)
proof (induction fuel arbitrary: s)
  case (Suc fuel)
  let ?a = "emit (Gst (Bus_have_pending (mGstBus s))) s"
  show ?case
  proof (cases "gst_bus_have_pending E (trace ?a)")
    case False
    then have "bus_loop m E V s = ?a" if "0 < m" for m
      using that by (cases m) (simp_all add: ask_def)
    then show ?thesis using False by (intro exI [of _ ?a]) simp
  next
    case True
    then have left: "pops (trace s) < n"
      using assms(1) [of "trace ?a"] by (fastforce simp: not_le [symmetric])
    let ?b = "emit (Gst (Bus_pop (mGstBus s))) ?a"
    define u where "u = (case gst_bus_pop E (trace ?b) of None \<Rightarrow> ?b
      | Some m \<Rightarrow> emit (Gst Message_unref) (handle_message E V m ?b))"
    have "suffix (trace ?b) (trace (handle_message E V m ?b))" for m
      unfolding assms(3)
      by (cases "m = Msg_async_done")
        (simp_all add: history.plain.async_done_keeps history.plain.other_message_keeps)
    then have "suffix (trace ?b) (trace u)"
      by (auto simp: u_def split: option.split intro: suffix_ConsI)
    from pops_suffix [OF this] have "pops (trace s) < pops (trace u)" by simp
    then have "n - pops (trace u) < n - pops (trace s)" using left by linarith
    then have "n - pops (trace u) < fuel" using Suc.prems by linarith
    from Suc.IH [OF this] obtain t where t: "\<not> gst_bus_have_pending E (trace t)"
        "hd (trace t) = Gst (Bus_have_pending (mGstBus t))"
        "\<And>m. n - pops (trace u) < m \<Longrightarrow> bus_loop m E V u = t" by blast
    have "bus_loop m E V s = t" if "n - pops (trace s) < m" for m
    proof (cases m)
      case (Suc k)
      then have "n - pops (trace u) < k"
        using that \<open>n - pops (trace u) < n - pops (trace s)\<close> by linarith
      moreover have "bus_loop (Suc k) E V s = bus_loop k E V u"
        using True by (simp add: ask_def u_def split: option.split)
      ultimately show ?thesis using Suc t(3) [of k] by simp
    qed (use that in simp)
    then show ?thesis using t(1,2) by blast
  qed
qed simp

text \<open>A bus with two messages.\<close>

definition two_messages :: env where
  "two_messages = calm\<lparr>gst_bus_have_pending := (\<lambda>h. pops h < 2), gst_bus_pop := (\<lambda>_. Some Msg_eos)\<rparr>"

theorem bus_loop_terminates_witness:
  "\<exists>t. \<not> gst_bus_have_pending two_messages (trace t) \<and> hd (trace t) = Gst (Bus_have_pending (mGstBus t)) \<and>
    (\<forall>m. 2 - pops (trace open_player) < m \<longrightarrow>
      bus_loop m two_messages (player_vtable two_messages) open_player = t)"
  by (rule bus_loop_terminates [where fuel = 3]) (simp_all add: two_messages_def)

end
