(* ===== verification/Frame_Handoff.thy ===== *)
theory Frame_Handoff
  imports Player_Invariants "HOL-Library.Multiset"
begin

text \<open>
  The hand-off of video frames between the streaming thread (\<open>Player::processSample\<close>) and the user's
  thread (the second half of \<open>Player::update\<close>), one shared access at a time and in every
  interleaving. The threads share the members \<open>mCurrentSample\<close>, \<open>mCurrentBuffer\<close>, \<open>mCurrentMapInfo\<close> and
  the atomic flag \<open>mBufferDirty\<close>, with no lock. The steps are relations, one rule per statement; the
  abstract specification is a buffer with one place. \<open>close\<close> is not a step: it stops the pipeline,
  and with it the streaming thread, before it touches the frame.
\<close>

section \<open>The shared members and the two threads\<close>

text \<open>Where the streaming thread stands in \<open>processSample\<close>, and the user's thread in \<open>update\<close>.\<close>

datatype stream_pc =
    S_idle
  | S_test nat           \<comment> \<open>\<open>if (mBufferDirty)\<close>\<close>
  | S_skip nat           \<comment> \<open>\<open>gst_sample_unref(sample)\<close>\<close>
  | S_sample nat         \<comment> \<open>\<open>mCurrentSample = sample\<close>\<close>
  | S_buffer nat         \<comment> \<open>\<open>mCurrentBuffer = gst_sample_get_buffer(sample)\<close>\<close>
  | S_map nat            \<comment> \<open>\<open>gst_buffer_map(mCurrentBuffer, &mCurrentMapInfo)\<close>\<close>
  | S_signal nat         \<comment> \<open>\<open>mBufferDirty = true\<close>\<close>

datatype ui_pc =
    U_test               \<comment> \<open>\<open>if (mBufferDirty)\<close>\<close>
  | U_show               \<comment> \<open>\<open>onVideoFrame(mCurrentMapInfo.data, mCurrentMapInfo.size)\<close>\<close>
  | U_unmap              \<comment> \<open>\<open>if (mCurrentBuffer) gst_buffer_unmap(mCurrentBuffer)\<close>\<close>
  | U_unref              \<comment> \<open>\<open>if (mCurrentSample) gst_sample_unref(mCurrentSample)\<close>\<close>
  | U_buffer             \<comment> \<open>\<open>mCurrentBuffer = nullptr\<close>\<close>
  | U_sample             \<comment> \<open>\<open>mCurrentSample = nullptr\<close>\<close>
  | U_signal             \<comment> \<open>\<open>mBufferDirty = false\<close>\<close>

text \<open>The lists are ghost state, oldest first: the samples pulled, the ones found in the way of an
  unconsumed frame, the map infos handed to \<open>onVideoFrame\<close>, and the samples unreferenced.\<close>

record handoff =
  stream :: stream_pc
  ui :: ui_pc
  h_sample :: ptr
  h_buffer :: ptr
  h_info :: "nat \<times> nat"
  h_dirty :: bool
  pulled :: "nat list"
  skipped :: "nat list"
  shown :: "(nat \<times> nat) list"
  unreffed :: "nat list"

definition handoff_start :: "nat \<times> nat \<Rightarrow> handoff" where
  "handoff_start i = \<lparr>stream = S_idle, ui = U_test, h_sample = None, h_buffer = None, h_info = i,
     h_dirty = False, pulled = [], skipped = [], shown = [], unreffed = []\<rparr>"

section \<open>Steps\<close>

text \<open>GStreamer's part is two functions: the buffer of a sample and what mapping a buffer yields.\<close>

inductive stream_step :: "(nat \<Rightarrow> ptr) \<Rightarrow> (ptr \<Rightarrow> nat \<times> nat) \<Rightarrow> handoff \<Rightarrow> handoff \<Rightarrow> bool"
  for B :: "nat \<Rightarrow> ptr" and F :: "ptr \<Rightarrow> nat \<times> nat" where
  pull: "stream s = S_idle \<Longrightarrow> stream_step B F s (s\<lparr>stream := S_test x, pulled := pulled s @ [x]\<rparr>)"
| busy: "stream s = S_test x \<Longrightarrow> h_dirty s \<Longrightarrow>
     stream_step B F s (s\<lparr>stream := S_skip x, skipped := skipped s @ [x]\<rparr>)"
| skip: "stream s = S_skip x \<Longrightarrow> stream_step B F s (s\<lparr>stream := S_idle, unreffed := unreffed s @ [x]\<rparr>)"
| free: "stream s = S_test x \<Longrightarrow> \<not> h_dirty s \<Longrightarrow> stream_step B F s (s\<lparr>stream := S_sample x\<rparr>)"
| sample: "stream s = S_sample x \<Longrightarrow> stream_step B F s (s\<lparr>stream := S_buffer x, h_sample := Some x\<rparr>)"
| buffer: "stream s = S_buffer x \<Longrightarrow> stream_step B F s (s\<lparr>stream := S_map x, h_buffer := B x\<rparr>)"
| map_info: "stream s = S_map x \<Longrightarrow> stream_step B F s (s\<lparr>stream := S_signal x, h_info := F (h_buffer s)\<rparr>)"
| signal: "stream s = S_signal x \<Longrightarrow> stream_step B F s (s\<lparr>stream := S_idle, h_dirty := True\<rparr>)"

inductive ui_step :: "handoff \<Rightarrow> handoff \<Rightarrow> bool" where
  no_frame: "ui s = U_test \<Longrightarrow> \<not> h_dirty s \<Longrightarrow> ui_step s s"
| frame: "ui s = U_test \<Longrightarrow> h_dirty s \<Longrightarrow> ui_step s (s\<lparr>ui := U_show\<rparr>)"
| show_frame: "ui s = U_show \<Longrightarrow> ui_step s (s\<lparr>ui := U_unmap, shown := shown s @ [h_info s]\<rparr>)"
| unmap: "ui s = U_unmap \<Longrightarrow> ui_step s (s\<lparr>ui := U_unref\<rparr>)"
| unref: "ui s = U_unref \<Longrightarrow>
     ui_step s (s\<lparr>ui := U_buffer,
       unreffed := unreffed s @ (case h_sample s of None \<Rightarrow> [] | Some x \<Rightarrow> [x])\<rparr>)"
| clear_buffer: "ui s = U_buffer \<Longrightarrow> ui_step s (s\<lparr>ui := U_sample, h_buffer := None\<rparr>)"
| clear_sample: "ui s = U_sample \<Longrightarrow> ui_step s (s\<lparr>ui := U_signal, h_sample := None\<rparr>)"
| consumed: "ui s = U_signal \<Longrightarrow> ui_step s (s\<lparr>ui := U_test, h_dirty := False\<rparr>)"

code_pred (modes: i \<Rightarrow> o \<Rightarrow> bool) ui_step .

inductive_cases ui_stepE: "ui_step s t"

inductive_cases stream_stepE: "stream_step B F s t"

inductive handoff_reachable :: "(nat \<Rightarrow> ptr) \<Rightarrow> (ptr \<Rightarrow> nat \<times> nat) \<Rightarrow> handoff \<Rightarrow> bool"
  for B :: "nat \<Rightarrow> ptr" and F :: "ptr \<Rightarrow> nat \<times> nat" where
  start: "handoff_reachable B F (handoff_start i)"
| by_stream: "handoff_reachable B F s \<Longrightarrow> stream_step B F s t \<Longrightarrow> handoff_reachable B F t"
| by_ui: "handoff_reachable B F s \<Longrightarrow> ui_step s t \<Longrightarrow> handoff_reachable B F t"

section \<open>The invariant\<close>

text \<open>The thread that may touch the frame: the streaming thread between its test and its signal, the
  user's thread between its own.\<close>

fun writing :: "stream_pc \<Rightarrow> nat option" where
  "writing (S_sample x) = Some x"
| "writing (S_buffer x) = Some x"
| "writing (S_map x) = Some x"
| "writing (S_signal x) = Some x"
| "writing _ = None"

definition reading :: "ui_pc \<Rightarrow> bool" where
  "reading u \<longleftrightarrow> u \<noteq> U_test"

text \<open>The sample in the hands of the streaming thread.\<close>

fun in_hand :: "stream_pc \<Rightarrow> nat list" where
  "in_hand S_idle = []"
| "in_hand (S_test x) = [x]"
| "in_hand (S_skip x) = [x]"
| "in_hand (S_sample x) = [x]"
| "in_hand (S_buffer x) = []"
| "in_hand (S_map x) = []"
| "in_hand (S_signal x) = []"

text \<open>The frame held by the members, as long as the user's thread has not given it back.\<close>

definition in_slot :: "handoff \<Rightarrow> nat list" where
  "in_slot s = (case h_sample s of None \<Rightarrow> [] | Some x \<Rightarrow> if ui s \<in> {U_buffer, U_sample} then [] else [x])"



definition handoff_ok :: "(nat \<Rightarrow> ptr) \<Rightarrow> (ptr \<Rightarrow> nat \<times> nat) \<Rightarrow> handoff \<Rightarrow> bool" where
  "handoff_ok B F s \<longleftrightarrow>
     (writing (stream s) \<noteq> None \<longrightarrow> \<not> h_dirty s) \<and>
     (reading (ui s) \<longrightarrow> h_dirty s) \<and>
     (case stream s of
        S_buffer x \<Rightarrow> h_sample s = Some x \<and> h_buffer s = None
      | S_map x \<Rightarrow> h_sample s = Some x \<and> h_buffer s = B x
      | S_signal x \<Rightarrow> h_sample s = Some x \<and> h_buffer s = B x \<and> h_info s = F (B x)
      | _ \<Rightarrow> \<not> h_dirty s \<longrightarrow> h_sample s = None \<and> h_buffer s = None) \<and>
     (h_dirty s \<and> ui s \<noteq> U_signal \<longrightarrow>
        (\<exists>x. h_sample s = Some x \<and> h_info s = F (B x) \<and> (ui s \<noteq> U_sample \<longrightarrow> h_buffer s = B x))) \<and>
     (h_dirty s \<and> ui s = U_sample \<longrightarrow> h_buffer s = None) \<and>
     (h_dirty s \<and> ui s = U_signal \<longrightarrow> h_sample s = None \<and> h_buffer s = None) \<and>
     mset (pulled s) = mset (unreffed s) + mset (in_hand (stream s)) + mset (in_slot s)"

lemma handoff_ok_start: "handoff_ok B F (handoff_start i)"
  by (simp add: handoff_ok_def handoff_start_def reading_def in_slot_def)

lemma stream_step_ok: "stream_step B F s t \<Longrightarrow> handoff_ok B F s \<Longrightarrow> handoff_ok B F t"
  by (induction rule: stream_step.induct)
    (auto simp: handoff_ok_def reading_def in_slot_def split: option.splits)

lemma ui_step_ok: "ui_step s t \<Longrightarrow> handoff_ok B F s \<Longrightarrow> handoff_ok B F t"
  by (induction rule: ui_step.induct)
    (auto simp: handoff_ok_def reading_def in_slot_def split: option.splits stream_pc.splits)

lemma reachable_ok: "handoff_reachable B F s \<Longrightarrow> handoff_ok B F s"
  by (induction rule: handoff_reachable.induct)
    (auto intro: handoff_ok_start stream_step_ok ui_step_ok)

section \<open>Order\<close>

text \<open>The pulled samples whose fate is decided, and the frames on their way to the user: the one that
  is ready and not shown yet, or the one being written.\<close>

definition decided :: "handoff \<Rightarrow> nat list" where
  "decided s = (case stream s of S_test x \<Rightarrow> butlast (pulled s) | _ \<Rightarrow> pulled s)"

definition on_the_way :: "(nat \<Rightarrow> nat \<times> nat) \<Rightarrow> handoff \<Rightarrow> (nat \<times> nat) list" where
  "on_the_way frame s =
     (case writing (stream s) of
        Some x \<Rightarrow> [frame x]
      | None \<Rightarrow> if h_dirty s \<and> (ui s = U_test \<or> ui s = U_show) then [h_info s] else [])"

definition order_ok :: "(nat \<Rightarrow> nat \<times> nat) \<Rightarrow> handoff \<Rightarrow> bool" where
  "order_ok frame s \<longleftrightarrow>
     (\<forall>x. stream s = S_test x \<longrightarrow> (\<exists>xs. pulled s = xs @ [x])) \<and>
     (\<exists>acc. decided s \<in> shuffles acc (skipped s) \<and> map frame acc = shown s @ on_the_way frame s)"

lemma shuffles_snoc_left: "zs \<in> shuffles xs ys \<Longrightarrow> zs @ [x] \<in> shuffles (xs @ [x]) ys"
proof (induction xs ys arbitrary: zs rule: shuffles.induct)
  case (1 ys)
  have "ys @ [x] \<in> shuffles [x] ys" by (induction ys) auto
  then show ?case using 1 by simp
next
  case (2 xs)
  then show ?case by simp
next
  case (3 a xs b ys)
  then show ?case by auto
qed

lemma shuffles_snoc_right: "zs \<in> shuffles xs ys \<Longrightarrow> zs @ [y] \<in> shuffles xs (ys @ [y])"
  using shuffles_snoc_left [of zs ys xs y] by (simp add: shuffles_commutes)

lemma order_ok_start: "order_ok frame (handoff_start i)"
  by (simp add: order_ok_def handoff_start_def decided_def on_the_way_def)

lemma stream_step_order:
  assumes "stream_step B F s t" and "handoff_ok B F s" and "order_ok (\<lambda>x. F (B x)) s"
  shows "order_ok (\<lambda>x. F (B x)) t"
  using assms
proof cases
  case (busy x)
  then obtain xs acc where xs: "pulled s = xs @ [x]" "xs \<in> shuffles acc (skipped s)"
    "map (\<lambda>x. F (B x)) acc = shown s @ on_the_way (\<lambda>x. F (B x)) s"
    using assms(3) by (auto simp: order_ok_def decided_def)
  then have "xs @ [x] \<in> shuffles acc (skipped s @ [x])" by (intro shuffles_snoc_right)
  then show ?thesis using busy xs by (auto simp: order_ok_def decided_def on_the_way_def)
next
  case (free x)
  then obtain xs acc where xs: "pulled s = xs @ [x]" "xs \<in> shuffles acc (skipped s)"
    "map (\<lambda>x. F (B x)) acc = shown s @ on_the_way (\<lambda>x. F (B x)) s"
    using assms(3) by (auto simp: order_ok_def decided_def)
  then have "xs @ [x] \<in> shuffles (acc @ [x]) (skipped s)" by (intro shuffles_snoc_left)
  moreover have "map (\<lambda>x. F (B x)) (acc @ [x]) = shown s @ [F (B x)]"
    using xs(3) free by (simp add: on_the_way_def)
  ultimately show ?thesis using free xs(1)
    by (auto simp: order_ok_def decided_def on_the_way_def intro!: exI [of _ "acc @ [x]"])
qed (auto simp: order_ok_def decided_def on_the_way_def handoff_ok_def reading_def)

lemma ui_step_stream:
  "ui_step s t \<Longrightarrow> stream t = stream s \<and> pulled t = pulled s \<and> skipped t = skipped s"
  by (auto elim!: ui_stepE)

lemma ui_step_shown:
  "ui_step s t \<Longrightarrow> handoff_ok B F s \<Longrightarrow>
     shown t @ on_the_way (\<lambda>x. F (B x)) t = shown s @ on_the_way (\<lambda>x. F (B x)) s"
  by (induction rule: ui_step.induct)
    (auto simp: on_the_way_def handoff_ok_def reading_def split: option.split)

lemma ui_step_order:
  assumes "ui_step s t" and "handoff_ok B F s" and "order_ok (\<lambda>x. F (B x)) s"
  shows "order_ok (\<lambda>x. F (B x)) t"
proof -
  have "decided t = decided s" using ui_step_stream [OF assms(1)]
    by (simp add: decided_def split: stream_pc.split)
  then show ?thesis
    using assms(3) ui_step_stream [OF assms(1)] ui_step_shown [OF assms(1,2)]
    by (simp add: order_ok_def)
qed

lemma reachable_order: "handoff_reachable B F s \<Longrightarrow> order_ok (\<lambda>x. F (B x)) s"
  by (induction rule: handoff_reachable.induct)
    (auto intro: order_ok_start stream_step_order ui_step_order dest: reachable_ok)

section \<open>Refinement of a buffer with one place\<close>

text \<open>The specification: what is in the buffer, what was taken out of it and what was dropped, oldest
  first. A frame that finds the place occupied is dropped.\<close>

type_synonym 'f one_place = "'f option \<times> 'f list \<times> 'f list"

inductive one_place_step :: "'f one_place \<Rightarrow> 'f one_place \<Rightarrow> bool" where
  put: "one_place_step (None, taken, dropped) (Some f, taken, dropped)"
| drop: "one_place_step (Some g, taken, dropped) (Some g, taken, dropped @ [f])"
| take: "one_place_step (Some f, taken, dropped) (None, taken @ [f], dropped)"

text \<open>The place is occupied while the flag is set: the frame counts as taken when the user's thread
  clears the flag, although it has been shown before.\<close>

definition abs_handoff :: "(nat \<Rightarrow> nat \<times> nat) \<Rightarrow> handoff \<Rightarrow> (nat \<times> nat) one_place" where
  "abs_handoff frame s =
     (if h_dirty s then Some (h_info s) else None,
      if ui s = U_test \<or> ui s = U_show then shown s else butlast (shown s),
      map frame (skipped s))"

definition shown_ok :: "handoff \<Rightarrow> bool" where
  "shown_ok s \<longleftrightarrow> (ui s = U_test \<or> ui s = U_show \<or> (\<exists>fs. shown s = fs @ [h_info s]))"

lemma stream_step_shown_ok:
  "stream_step B F s t \<Longrightarrow> handoff_ok B F s \<Longrightarrow> shown_ok s \<Longrightarrow> shown_ok t"
  by (induction rule: stream_step.induct) (auto simp: shown_ok_def handoff_ok_def reading_def)

lemma ui_step_shown_ok: "ui_step s t \<Longrightarrow> shown_ok s \<Longrightarrow> shown_ok t"
  by (induction rule: ui_step.induct) (auto simp: shown_ok_def)

lemma reachable_shown_ok: "handoff_reachable B F s \<Longrightarrow> shown_ok s"
proof (induction rule: handoff_reachable.induct)
  case (start i)
  show ?case by (simp add: shown_ok_def handoff_start_def)
qed (use stream_step_shown_ok ui_step_shown_ok reachable_ok in blast)+

lemma stream_step_abs:
  "stream_step B F s t \<Longrightarrow> handoff_ok B F s \<Longrightarrow>
     abs_handoff frame t = abs_handoff frame s \<or> one_place_step (abs_handoff frame s) (abs_handoff frame t)"
  by (induction rule: stream_step.induct)
    (auto simp: abs_handoff_def handoff_ok_def intro: one_place_step.intros)

lemma ui_step_abs:
  "ui_step s t \<Longrightarrow> handoff_ok B F s \<Longrightarrow> shown_ok s \<Longrightarrow>
     abs_handoff frame t = abs_handoff frame s \<or> one_place_step (abs_handoff frame s) (abs_handoff frame t)"
  by (induction rule: ui_step.induct)
    (auto simp: abs_handoff_def handoff_ok_def shown_ok_def reading_def intro: one_place_step.intros)

section \<open>Progress\<close>

text \<open>How many of its own steps the user's thread still needs to give the frame back.\<close>

fun steps_left :: "ui_pc \<Rightarrow> nat" where
  "steps_left U_test = 0"
| "steps_left U_show = 6"
| "steps_left U_unmap = 5"
| "steps_left U_unref = 4"
| "steps_left U_buffer = 3"
| "steps_left U_sample = 2"
| "steps_left U_signal = 1"

text \<open>Any number of steps of the streaming thread among \<open>n\<close> steps of the user's.\<close>

inductive interleaved :: "(nat \<Rightarrow> ptr) \<Rightarrow> (ptr \<Rightarrow> nat \<times> nat) \<Rightarrow> nat \<Rightarrow> handoff \<Rightarrow> handoff \<Rightarrow> bool"
  for B :: "nat \<Rightarrow> ptr" and F :: "ptr \<Rightarrow> nat \<times> nat" where
  stay: "interleaved B F 0 s s"
| by_stream: "interleaved B F n s t \<Longrightarrow> stream_step B F t u \<Longrightarrow> interleaved B F n s u"
| by_ui: "interleaved B F n s t \<Longrightarrow> ui_step t u \<Longrightarrow> interleaved B F (Suc n) s u"

lemma stream_step_ui: "stream_step B F s t \<Longrightarrow> ui t = ui s"
  by (auto elim!: stream_stepE)

lemma ui_step_left: "ui_step s t \<Longrightarrow> reading (ui s) \<Longrightarrow> steps_left (ui s) = Suc (steps_left (ui t))"
  by (auto simp: reading_def elim!: ui_stepE)

lemma reading_left: "reading u \<longleftrightarrow> 0 < steps_left u"
  by (cases u) (simp_all add: reading_def)

lemma interleaved_left:
  "interleaved B F n s t \<Longrightarrow> n \<le> steps_left (ui s) \<Longrightarrow> steps_left (ui t) = steps_left (ui s) - n"
proof (induction rule: interleaved.induct)
  case (by_ui n s t u)
  then have "reading (ui t)" by (simp add: reading_left)
  then show ?case using ui_step_left [OF by_ui.hyps(2)] by_ui by simp
qed (simp_all add: stream_step_ui)

lemma ui_never_blocked: "\<exists>t. ui_step s t"
  by (cases "ui s"; cases "h_dirty s") (blast intro: ui_step.intros)+

section \<open>The statements without interleaving\<close>

text \<open>The members as they stand in the record of the player.\<close>

definition same_members :: "handoff \<Rightarrow> 'a player_scheme \<Rightarrow> bool" where
  "same_members s p \<longleftrightarrow> h_sample s = mCurrentSample p \<and> h_buffer s = mCurrentBuffer p \<and>
     h_info s = mCurrentMapInfo p \<and> h_dirty s = mBufferDirty p"

lemma rtranclp_chain: "r\<^sup>*\<^sup>* a b \<Longrightarrow> r b c \<Longrightarrow> r c d \<Longrightarrow> r\<^sup>*\<^sup>* a d"
  by (meson rtranclp.rtrancl_into_rtrancl)

lemma stream_alone:
  assumes "stream s = S_test x" and "same_members s p"
    and "B x = gst_sample_get_buffer E (Gst (Sample_get_buffer (Some x)) # trace p)"
    and "F (B x) = gst_buffer_map E (Gst (Buffer_map (B x)) # Gst (Sample_get_buffer (Some x)) # trace p)"
  shows "\<exists>t. (stream_step B F)\<^sup>*\<^sup>* s t \<and> stream t = S_idle \<and> ui t = ui s \<and> same_members t (processSample E x p)"
proof (cases "h_dirty s")
  case True
  let ?a = "s\<lparr>stream := S_skip x, skipped := skipped s @ [x]\<rparr>"
  have 1: "stream_step B F s ?a" using assms(1) True by (rule busy)
  have 2: "stream_step B F ?a (?a\<lparr>stream := S_idle, unreffed := unreffed ?a @ [x]\<rparr>)"
    by (rule skip) simp
  have "(stream_step B F)\<^sup>*\<^sup>* s (?a\<lparr>stream := S_idle, unreffed := unreffed ?a @ [x]\<rparr>)"
    using 1 2 by (blast intro: rtranclp.intros)
  moreover have "same_members (?a\<lparr>stream := S_idle, unreffed := unreffed ?a @ [x]\<rparr>) (processSample E x p)"
    using assms(2) True by (simp add: same_members_def processSample_def)
  ultimately show ?thesis by (intro exI conjI) simp_all
next
  case False
  define a where "a = s\<lparr>stream := S_sample x\<rparr>"
  define b where "b = a\<lparr>stream := S_buffer x, h_sample := Some x\<rparr>"
  define c where "c = b\<lparr>stream := S_map x, h_buffer := B x\<rparr>"
  define d where "d = c\<lparr>stream := S_signal x, h_info := F (h_buffer c)\<rparr>"
  define e where "e = d\<lparr>stream := S_idle, h_dirty := True\<rparr>"
  have 1: "stream_step B F s a" unfolding a_def using assms(1) False by (rule free)
  have 2: "stream_step B F a b" unfolding b_def by (rule sample) (simp add: a_def)
  have 3: "stream_step B F b c" unfolding c_def by (rule buffer) (simp add: b_def)
  have 4: "stream_step B F c d" unfolding d_def by (rule map_info) (simp add: c_def)
  have 5: "stream_step B F d e" unfolding e_def by (rule signal) (simp add: d_def)
  have "(stream_step B F)\<^sup>*\<^sup>* s e"
    by (rule rtranclp_chain [OF rtranclp_chain [OF r_into_rtranclp [of "stream_step B F", OF 1] 2 3] 4 5])
  moreover have "same_members e (processSample E x p)"
    using assms(2-4) False
    by (simp add: e_def d_def c_def b_def a_def same_members_def processSample_def ask_def Let_def)
  moreover have "stream e = S_idle" "ui e = ui s"
    by (simp_all add: e_def d_def c_def b_def a_def)
  ultimately show ?thesis by blast
qed

lemma ui_alone:
  assumes "ui s = U_test" and "same_members s p"
  shows "\<exists>t. ui_step\<^sup>*\<^sup>* s t \<and> ui t = U_test \<and> stream t = stream s \<and>
    same_members t (consume_frame (player_vtable E) p)"
proof (cases "h_dirty s")
  case False
  then show ?thesis using assms by (auto simp: same_members_def consume_frame_def)
next
  case True
  define a where "a = s\<lparr>ui := U_show\<rparr>"
  define b where "b = a\<lparr>ui := U_unmap, shown := shown a @ [h_info a]\<rparr>"
  define c where "c = b\<lparr>ui := U_unref\<rparr>"
  define d where "d = c\<lparr>ui := U_buffer,
    unreffed := unreffed c @ (case h_sample c of None \<Rightarrow> [] | Some x \<Rightarrow> [x])\<rparr>"
  define e where "e = d\<lparr>ui := U_sample, h_buffer := None\<rparr>"
  define f where "f = e\<lparr>ui := U_signal, h_sample := None\<rparr>"
  define g where "g = f\<lparr>ui := U_test, h_dirty := False\<rparr>"
  have 1: "ui_step s a" unfolding a_def using assms(1) True by (rule frame)
  have 2: "ui_step a b" unfolding b_def by (rule show_frame) (simp add: a_def)
  have 3: "ui_step b c" unfolding c_def by (rule unmap) (simp add: b_def)
  have 4: "ui_step c d" unfolding d_def by (rule unref) (simp add: c_def)
  have 5: "ui_step d e" unfolding e_def by (rule clear_buffer) (simp add: d_def)
  have 6: "ui_step e f" unfolding f_def by (rule clear_sample) (simp add: e_def)
  have 7: "ui_step f g" unfolding g_def by (rule consumed) (simp add: f_def)
  have "ui_step\<^sup>*\<^sup>* s g"
    by (rule rtranclp_chain [OF rtranclp_chain [OF rtranclp_chain [OF r_into_rtranclp [of ui_step, OF 1] 2 3] 4 5] 6 7])
  moreover have "same_members g (consume_frame (player_vtable E) p)"
    using assms(2) True
    by (simp add: g_def f_def e_def d_def c_def b_def a_def same_members_def consume_frame_def
        player_vtable_def Let_def release_def)
  moreover have "ui g = U_test" "stream g = stream s"
    by (simp_all add: g_def f_def e_def d_def c_def b_def a_def)
  ultimately show ?thesis by blast
qed

section \<open>The properties\<close>

text \<open>One frame delivered and being shown, for concrete runs.\<close>

definition demo_handoff :: handoff where
  "demo_handoff = \<lparr>stream = S_idle, ui = U_show, h_sample = Some 1, h_buffer = Some 1, h_info = (7, 9),
     h_dirty = True, pulled = [1], skipped = [], shown = [], unreffed = []\<rparr>"

lemma demo_reachable: "handoff_reachable Some (\<lambda>_. (7, 9)) demo_handoff"
proof -
  define a where "a = (handoff_start (0, 0))\<lparr>stream := S_test 1, pulled := pulled (handoff_start (0, 0)) @ [1]\<rparr>"
  define b where "b = a\<lparr>stream := S_sample 1\<rparr>"
  define c where "c = b\<lparr>stream := S_buffer 1, h_sample := Some 1\<rparr>"
  define d where "d = c\<lparr>stream := S_map 1, h_buffer := Some 1\<rparr>"
  define e where "e = d\<lparr>stream := S_signal 1, h_info := (7, 9)\<rparr>"
  define f where "f = e\<lparr>stream := S_idle, h_dirty := True\<rparr>"
  let ?R = "handoff_reachable Some (\<lambda>_. (7, 9))" and ?S = "stream_step Some (\<lambda>_. (7, 9))"
  have 0: "?R (handoff_start (0, 0))" by (rule start)
  have 1: "?S (handoff_start (0, 0)) a" unfolding a_def by (rule pull) (simp add: handoff_start_def)
  have 2: "?S a b" unfolding b_def by (rule free) (simp_all add: a_def handoff_start_def)
  have 3: "?S b c" unfolding c_def by (rule sample) (simp add: b_def)
  have 4: "?S c d" unfolding d_def by (rule buffer) (simp add: c_def)
  have 5: "?S d e" unfolding e_def by (rule map_info) (simp add: d_def)
  have 6: "?S e f" unfolding f_def by (rule signal) (simp add: e_def)
  note by_stream = handoff_reachable.by_stream
  have "?R f" by (rule by_stream [OF by_stream [OF by_stream [OF by_stream [OF by_stream [OF by_stream [OF 0 1] 2] 3] 4] 5] 6])
  moreover have "ui_step f (f\<lparr>ui := U_show\<rparr>)"
    by (rule frame) (simp_all add: f_def e_def d_def c_def b_def a_def handoff_start_def)
  ultimately have "?R (f\<lparr>ui := U_show\<rparr>)" by (rule handoff_reachable.by_ui)
  moreover have "f\<lparr>ui := U_show\<rparr> = demo_handoff"
    by (simp add: f_def e_def d_def c_def b_def a_def handoff_start_def demo_handoff_def)
  ultimately show ?thesis by simp
qed

text \<open>C6: mutual exclusion without a lock. In no interleaving of the two threads is the streaming thread
  between its test of the flag and its signal while the user's thread is between its own: the
  frame's members are never written and read at the same time.\<close>

theorem frame_mutual_exclusion:
  assumes "handoff_reachable B F s"
  shows "\<not> (writing (stream s) \<noteq> None \<and> reading (ui s))"
  using reachable_ok [OF assms] by (auto simp: handoff_ok_def)

theorem frame_mutual_exclusion_witness:
  "\<not> (writing (stream demo_handoff) \<noteq> None \<and> reading (ui demo_handoff))"
  by (rule frame_mutual_exclusion [OF demo_reachable])

text \<open>C7: frames are whole, in order, and shown once. The pulled samples are an interleaving of the
  skipped ones and of the accepted ones, and what \<open>onVideoFrame\<close> has been given is exactly the map
  infos of the accepted samples' own buffers, in the order they were pulled, but for the one frame
  still on its way.\<close>

theorem frames_in_order:
  assumes "handoff_reachable B F s"
  shows "\<exists>acc. decided s \<in> shuffles acc (skipped s) \<and>
    map (\<lambda>x. F (B x)) acc = shown s @ on_the_way (\<lambda>x. F (B x)) s"
  using reachable_order [OF assms] by (simp add: order_ok_def)

theorem frames_in_order_witness:
  "\<exists>acc. decided demo_handoff \<in> shuffles acc (skipped demo_handoff) \<and>
    map (\<lambda>x. (7, 9)) acc = shown demo_handoff @ on_the_way (\<lambda>x. (7, 9)) demo_handoff"
  by (rule frames_in_order [OF demo_reachable])

text \<open>Samples are given back once. In every interleaving, each sample that was pulled has either been
  unreferenced exactly once, or is in the hands of the streaming thread, or is held for the user.\<close>

lemma samples_given_back_once:
  assumes "handoff_reachable B F s"
  shows "mset (pulled s) = mset (unreffed s) + mset (in_hand (stream s)) + mset (in_slot s)"
  using reachable_ok [OF assms] by (simp add: handoff_ok_def)

text \<open>C8: the hand-off refines a buffer with one place. Every step of either thread is a step of the
  specification or invisible to it: a frame that finds the place free is put, one that finds it
  occupied is dropped, and the user takes them one at a time.\<close>

theorem handoff_refines_one_place:
  assumes "handoff_reachable B F s" and "stream_step B F s t \<or> ui_step s t"
  shows "abs_handoff frame t = abs_handoff frame s \<or>
    one_place_step (abs_handoff frame s) (abs_handoff frame t)"
  using assms(2) stream_step_abs ui_step_abs reachable_ok [OF assms(1)] reachable_shown_ok [OF assms(1)]
  by blast

theorem handoff_refines_one_place_witness:
  "\<exists>t. ui_step demo_handoff t \<and> (abs_handoff (\<lambda>_. (7, 9)) t = abs_handoff (\<lambda>_. (7, 9)) demo_handoff \<or>
    one_place_step (abs_handoff (\<lambda>_. (7, 9)) demo_handoff) (abs_handoff (\<lambda>_. (7, 9)) t))"
  using handoff_refines_one_place [OF demo_reachable] ui_never_blocked [of demo_handoff] by blast

text \<open>\<open>update\<close> never waits for the streaming thread. The user's thread can always make its next step,
  and once it has begun to show a frame it has given the frame back after at most six steps of its
  own, however many steps the streaming thread makes in between.\<close>

lemma update_is_wait_free:
  assumes "interleaved B F n s t" and "n = steps_left (ui s)"
  shows "ui t = U_test \<and> n \<le> 6 \<and> (\<exists>u. ui_step t u)"
proof -
  have "steps_left (ui t) = 0" using interleaved_left [OF assms(1)] assms(2) by simp
  then have "ui t = U_test" by (cases "ui t") simp_all
  moreover have "n \<le> 6" unfolding assms(2) by (cases "ui s") simp_all
  ultimately show ?thesis using ui_never_blocked by blast
qed

text \<open>C28: the small steps are the methods. Without interleaving, the steps of the streaming thread lead
  from the members of a player to the members \<open>processSample\<close> leaves, and those of the user's thread
  to the members the second half of \<open>update\<close> leaves.\<close>

theorem handoff_steps_are_the_methods:
  assumes "same_members s p"
    and "B x = gst_sample_get_buffer E (Gst (Sample_get_buffer (Some x)) # trace p)"
    and "F (B x) = gst_buffer_map E (Gst (Buffer_map (B x)) # Gst (Sample_get_buffer (Some x)) # trace p)"
    and "stream s = S_test x" and "ui s = U_test"
  shows "\<exists>t u. (stream_step B F)\<^sup>*\<^sup>* s t \<and> stream t = S_idle \<and> same_members t (processSample E x p) \<and>
    ui_step\<^sup>*\<^sup>* t u \<and> ui u = U_test \<and> same_members u (consume_frame (player_vtable E) (processSample E x p))"
proof -
  obtain t where t: "(stream_step B F)\<^sup>*\<^sup>* s t" "stream t = S_idle" "ui t = U_test"
      "same_members t (processSample E x p)"
    using stream_alone [of s x p B E F, OF assms(4) assms(1) assms(2) assms(3)] assms(5) by auto
  then show ?thesis using ui_alone [OF t(3,4)] by blast
qed

theorem handoff_steps_are_the_methods_witness:
  "\<exists>s t. same_members s fresh_storage \<and> (stream_step (\<lambda>_. Some 5) (\<lambda>_. (6, 7)))\<^sup>*\<^sup>* s t \<and>
    same_members t (processSample (calm\<lparr>gst_sample_get_buffer := \<lambda>_. Some 5, gst_buffer_map := \<lambda>_. (6, 7)\<rparr>)
      4 fresh_storage)"
proof -
  have "same_members ((handoff_start (0, 0))\<lparr>stream := S_test 4\<rparr>) fresh_storage"
    by (simp add: same_members_def handoff_start_def fresh_storage_def)
  from handoff_steps_are_the_methods [OF this, of "\<lambda>_. Some 5" 4
      "calm\<lparr>gst_sample_get_buffer := \<lambda>_. Some 5, gst_buffer_map := \<lambda>_. (6, 7)\<rparr>" "\<lambda>_. (6, 7)"] this
  show ?thesis by (auto simp: handoff_start_def)
qed

end
