(* ===== verification/Seek_Refinement.thy ===== *)
theory Seek_Refinement
  imports Player_Properties
begin

text \<open>
  What \<open>Player\<close> promises about seeking, as a machine of its own: one flushing seek at a time, and of
  the seeks asked for meanwhile the last one only. \<open>setTime\<close> and the handling of ASYNC_DONE implement
  it.
\<close>

section \<open>The specification\<close>

datatype seek_event = Request double | Finished

text \<open>At rest, or carrying out a seek, with the one to carry out next if there is any.\<close>

datatype seek_spec = Idle | Seeking "double option"

text \<open>A step of the machine; the second component is the seeks carried out so far.\<close>

fun spec_step :: "seek_event \<Rightarrow> seek_spec \<times> double list \<Rightarrow> seek_spec \<times> double list" where
  "spec_step (Request t) (Idle, out) = (Seeking None, out @ [t])"
| "spec_step (Request t) (Seeking q, out) = (Seeking (Some t), out)"
| "spec_step Finished (Idle, out) = (Idle, out)"
| "spec_step Finished (Seeking None, out) = (Idle, out)"
| "spec_step Finished (Seeking (Some t), out) = (Seeking None, out @ [t])"

definition spec_run :: "seek_event list \<Rightarrow> seek_spec \<times> double list" where
  "spec_run evs = fold spec_step evs (Idle, [])"

fun requests :: "seek_event list \<Rightarrow> double list" where
  "requests [] = []"
| "requests (Request t # evs) = t # requests evs"
| "requests (Finished # evs) = requests evs"

lemma requests_append [simp]: "requests (evs @ evs') = requests evs @ requests evs'"
  by (induction evs rule: requests.induct) auto

text \<open>The seek that matters is the last one asked for: it is the next one to be carried out, or else the
  last one that was.\<close>

lemma spec_serves_last:
  assumes "requests evs \<noteq> []"
  shows "case fst (spec_run evs) of
      Seeking (Some t) \<Rightarrow> t = last (requests evs)
    | _ \<Rightarrow> snd (spec_run evs) \<noteq> [] \<and> last (snd (spec_run evs)) = last (requests evs)"
  using assms
proof (induction evs rule: rev_induct)
  case (snoc e evs)
  obtain q out where r: "spec_run evs = (q, out)" by fastforce
  have step: "spec_run (evs @ [e]) = spec_step e (q, out)" using r by (simp add: spec_run_def)
  show ?case
  proof (cases e)
    case (Request t)
    then show ?thesis by (cases q) (simp_all add: step [unfolded Request])
  next
    case Finished
    then have "requests evs \<noteq> []" using snoc.prems by simp
    from snoc.IH [OF this] show ?thesis
      by (cases "(e, (q, out))" rule: spec_step.cases) (simp_all add: r step [unfolded Finished] Finished)
  qed
qed simp

text \<open>No seek is carried out that was not asked for.\<close>

lemma spec_only_requests: "set (snd (spec_run evs)) \<subseteq> set (requests evs)"
proof -
  have "(\<forall>t. fst (spec_run evs) = Seeking (Some t) \<longrightarrow> t \<in> set (requests evs)) \<and>
    set (snd (spec_run evs)) \<subseteq> set (requests evs)"
  proof (induction evs rule: rev_induct)
    case (snoc e evs)
    obtain q out where r: "spec_run evs = (q, out)" by fastforce
    have "spec_run (evs @ [e]) = spec_step e (q, out)" using r by (simp add: spec_run_def)
    then show ?case using snoc.IH
      by (cases "(e, (q, out))" rule: spec_step.cases) (auto simp: r)
  qed (simp add: spec_run_def)
  then show ?thesis by blast
qed

section \<open>The player\<close>

definition seek_step :: "env \<Rightarrow> seek_event \<Rightarrow> 'a player_scheme \<Rightarrow> 'a player_scheme" where
  "seek_step E e s =
     (case e of
        Request t \<Rightarrow> Player_setTime E t s
      | Finished \<Rightarrow> handle_message E (player_vtable E) Msg_async_done s)"

definition seek_abs :: "'a player_scheme \<Rightarrow> seek_spec" where
  "seek_abs s =
     (if mSeekingLock s then Seeking (if 0 \<le> mPendingSeek s then Some (mPendingSeek s) else None) else Idle)"

text \<open>The targets of the seeks in a history, oldest first, and the target of a time on a player of a
  duration.\<close>

fun issued :: "event list \<Rightarrow> int64 list" where
  "issued [] = []"
| "issued (Gst (Seek_simple p ns) # h) = issued h @ [ns]"
| "issued (_ # h) = issued h"

definition seek_ns :: "double \<Rightarrow> double \<Rightarrow> int64" where
  "seek_ns d t = the (double_to_int64 (clamp t 0 d * GST_SECOND))"

text \<open>What the player looks like between two steps.\<close>

definition seekable_player :: "nat \<Rightarrow> double \<Rightarrow> 'a player_scheme \<Rightarrow> bool" where
  "seekable_player p d s \<longleftrightarrow> mPipeline s = Some p \<and> mDuration s = d \<and>
     (mPendingSeek s = - 1 \<or> mSeekingLock s \<and> 0 \<le> mPendingSeek s)"

text \<open>A duration a seek can be computed with.\<close>

definition good_duration :: "double \<Rightarrow> bool" where
  "good_duration d \<longleftrightarrow> 0 \<le> d \<and> \<not> feq d 0 \<and> wf_double d \<and> double_to_int64 (d * GST_SECOND) \<noteq> None"

lemma minus_one: "\<not> 0 \<le> (- 1 :: double)"
  by (simp add: zero_double_def one_double_def double_order_defs)

lemma seek_ns_defined:
  assumes "good_duration d" and "0 \<le> t"
  shows "double_to_int64 (clamp t 0 d * GST_SECOND) = Some (seek_ns d t)"
proof -
  have "t \<noteq> NaN" using assms(2) by (auto simp: double_order_defs zero_double_def)
  then have "0 \<le> clamp t 0 d \<and> clamp t 0 d \<le> d"
    using clamp_range assms(1) by (auto simp: good_duration_def)
  then have "double_to_int64 (clamp t 0 d * GST_SECOND) \<noteq> None"
    using double_to_int64_scale_mono [of _ d 1000000000] assms(1) by (auto simp: good_duration_def GST_SECOND_def)
  then show ?thesis by (auto simp: seek_ns_def)
qed

lemma setTime_idle:
  assumes "seekable_player p d s" and "good_duration d" and "0 \<le> t" and "\<not> mSeekingLock s"
    and "\<And>h. gst_element_seek_simple E h"
  shows "Player_setTime E t s =
    (emit (Gst (Seek_simple (Some p) (seek_ns d t))) s)\<lparr>mSeekingLock := True, mPendingSeek := - 1\<rparr>"
  using assms seek_ns_defined [OF assms(2,3)]
  by (simp add: Player_setTime_def seekable_player_def good_duration_def ask_def)

lemma seek_step_refines:
  assumes "seekable_player p d s" and "good_duration d" and "\<And>h. gst_element_seek_simple E h"
    and "set (requests [e]) \<subseteq> {t. 0 \<le> t}" and "t = seek_step E e s"
  shows "seekable_player p d t \<and>
    (\<exists>new. spec_step e (seek_abs s, out) = (seek_abs t, out @ new) \<and>
      issued (trace t) = issued (trace s) @ map (seek_ns d) new)"
proof (cases e)
  case (Request r)
  then have r: "0 \<le> r" "t = Player_setTime E r s" using assms(4,5) by (simp_all add: seek_step_def)
  show ?thesis
  proof (cases "mSeekingLock s")
    case True
    then have "t = s\<lparr>mPendingSeek := r\<rparr>" using r(2) assms(1) by (simp add: setTime_locked seekable_player_def)
    then show ?thesis using assms(1) r(1) True Request by (simp add: seekable_player_def seek_abs_def)
  next
    case False
    then show ?thesis using setTime_idle [OF assms(1,2) r(1) False assms(3)] r(2) assms(1) Request
      by (simp add: seekable_player_def seek_abs_def minus_one)
  qed
next
  case Finished
  let ?u = "s\<lparr>mSeekingLock := False\<rparr>"
  have t: "t = (if 0 \<le> mPendingSeek s then Player_setTime E (mPendingSeek s) ?u else ?u)"
    by (simp add: assms(5) Finished seek_step_def handle_message_async_done Let_def)
  show ?thesis
  proof (cases "0 \<le> mPendingSeek s")
    case True
    then have l: "mSeekingLock s" using assms(1) minus_one by (auto simp: seekable_player_def)
    have u: "seekable_player p d (?u\<lparr>mPendingSeek := - 1\<rparr>)" using assms(1) by (simp add: seekable_player_def)
    have "Player_setTime E (mPendingSeek s) ?u =
      (emit (Gst (Seek_simple (Some p) (seek_ns d (mPendingSeek s)))) ?u)\<lparr>mSeekingLock := True, mPendingSeek := - 1\<rparr>"
      using assms(1-3) seek_ns_defined [OF assms(2) True]
      by (simp add: Player_setTime_def seekable_player_def good_duration_def ask_def)
    then show ?thesis using True t assms(1) l Finished
      by (simp add: seekable_player_def seek_abs_def minus_one)
  next
    case False
    then have "mPendingSeek s = - 1" using assms(1) by (auto simp: seekable_player_def)
    then show ?thesis using False t assms(1) Finished by (simp add: seekable_player_def seek_abs_def)
  qed
qed



end
