(* ===== verification/Client.thy ===== *)
theory Client
  imports Internal
begin

text \<open>
  The network client of \<open>nsvr_client.hpp/.cpp\<close>: it receives datagrams on a socket of its own main
  context and sends messages to the server over short-lived connections. The class is a base class
  of \<open>PlayerClient\<close>: its members are the record \<open>client\<close>, reached through a \<open>client_class\<close>, which also
  holds the virtual method \<open>onMessage\<close>.
\<close>

section \<open>State\<close>

record client =
  mServerAddress :: string
  mReceiveSocket :: ptr
  mListenAddress :: ptr
  mContext :: ptr
  mSource :: ptr
  mServerPort :: int16
  mConnected :: bool

record 's client_class =
  get_client :: "'s \<Rightarrow> client"
  put_client :: "client \<Rightarrow> 's \<Rightarrow> 's"
  Client_onMessage :: "string \<Rightarrow> 's \<Rightarrow> 's"

definition new_client :: client where
  "new_client = \<lparr>mServerAddress = [], mReceiveSocket = None, mListenAddress = None, mContext = None,
     mSource = None, mServerPort = 0, mConnected = False\<rparr>"

section \<open>Methods\<close>

definition isConnected :: "'a world_scheme client_class \<Rightarrow> 'a world_scheme \<Rightarrow> bool" where
  "isConnected C s = mConnected (get_client C s)"

definition getServerAddress :: "'a world_scheme client_class \<Rightarrow> 'a world_scheme \<Rightarrow> string" where
  "getServerAddress C s = mServerAddress (get_client C s)"

definition getServerPort :: "'a world_scheme client_class \<Rightarrow> 'a world_scheme \<Rightarrow> int16" where
  "getServerPort C s = mServerPort (get_client C s)"

text \<open>\<open>g_clear_object\<close>.\<close>

definition clear_object :: "(ptr \<Rightarrow> gio_call) \<Rightarrow> ptr \<Rightarrow> 'a world_scheme \<Rightarrow> 'a world_scheme" where
  "clear_object f p s = (if p \<noteq> None then emit (Gio (f p)) s else s)"

definition disconnect :: "'a world_scheme client_class \<Rightarrow> 'a world_scheme \<Rightarrow> 'a world_scheme" where
  "disconnect C s =
     (if \<not> isConnected C s then s
      else
        (let c = get_client C s;
             s = emit (Gio (Source_unref (mSource c))) s;
             s = emit (Gio (Context_unref (mContext c))) s;
             s = clear_object Address_unref (mListenAddress c) s;
             s = clear_object Socket_unref (mReceiveSocket c) s;
             s = put_client C (c\<lparr>mSource := None, mContext := None, mListenAddress := None,
                   mReceiveSocket := None, mConnected := False\<rparr>) s
         in NSVR_LOG ''Peer is disconnected.'' s))"

definition connect ::
  "env \<Rightarrow> 'a world_scheme client_class \<Rightarrow> string \<Rightarrow> int16 \<Rightarrow> 'a world_scheme \<Rightarrow> bool \<times> 'a world_scheme" where
  "connect E C server_address server_port s =
     (let s = (if isConnected C s then disconnect C s else s);
          c = (get_client C s)\<lparr>mServerAddress := server_address, mServerPort := server_port, mConnected := False\<rparr>;
          (sock, s) = ask (g_socket_new E) (Gio Socket_new) s;
          c = c\<lparr>mReceiveSocket := sock\<rparr> in
      if sock = None then (False, NSVR_LOG ''Unable to construct receive socket'' (put_client C c s))
      else
        (let s = emit (Gio (Socket_set_blocking sock)) s;
             (addr, s) = ask (g_inet_socket_address_new E) (Gio (Socket_address_new server_port)) s;
             c = c\<lparr>mListenAddress := addr\<rparr> in
         if addr = None then
           (False, BindToScope_dtor Scoped_GInetAddress
              (NSVR_LOG ''Listen address could not be constructed.'' (put_client C c s)))
         else
           (let (bound, s) = ask (g_socket_bind E) (Gio (Socket_bind sock addr)) s in
            if bound then
              (let (ctx, s) = ask (g_main_context_new E) (Gio Context_new) s;
                   (src, s) = ask (g_socket_create_source E) (Gio (Socket_create_source sock)) s;
                   s = emit (Gio (Source_attach (Some src) (Some ctx))) s
               in (True, BindToScope_dtor Scoped_GInetAddress
                     (put_client C (c\<lparr>mContext := Some ctx, mSource := Some src, mConnected := True\<rparr>) s)))
            else (False, BindToScope_dtor Scoped_GInetAddress
                    (NSVR_LOG ''Client failed to bind'' (put_client C c s))))))"

definition sendToServer ::
  "env \<Rightarrow> 'a world_scheme client_class \<Rightarrow> string \<Rightarrow> 'a world_scheme \<Rightarrow> 'a world_scheme" where
  "sendToServer E C message s =
     (let c = get_client C s in
      if \<not> (mServerAddress c \<noteq> [] \<and> 0 < sint (mServerPort c)) then s
      else
        (let (created, s) = ask (g_socket_client_new E) (Gio Socket_client_new) s in
         if \<not> created then NSVR_LOG ''Client was unable to construct socket client.'' s
         else
           (let (connected, s) = ask (g_socket_client_connect_to_host E)
                  (Gio (Connect_to_host (c_str (mServerAddress c)) (mServerPort c))) s;
                s = (if connected then
                       (let (stream, s) = ask (g_io_stream_get_output_stream E) (Gio Get_output_stream) s;
                            s = (if stream then
                                   (let (ok, s) = ask (g_output_stream_write E) (Gio (Stream_write message)) s
                                    in if ok then s
                                       else NSVR_LOG ''Client was unable to write to output stream.'' s)
                                 else NSVR_LOG ''Client was unable to obtain output stream.'' s)
                        in BindToScope_dtor Scoped_GSocketConnection s)
                     else NSVR_LOG ''Client was unable to connect to host.'' s)
            in BindToScope_dtor Scoped_GSocketClient s)))"

text \<open>The callback of the socket's source, for the socket it was created on. The socket is held by
  \<open>ScopedSocketRef\<close> until the end. The source action it returns is the first component.\<close>

definition incomming ::
  "env \<Rightarrow> 'a world_scheme client_class \<Rightarrow> ptr \<Rightarrow> 'a world_scheme \<Rightarrow> bool \<times> 'a world_scheme" where
  "incomming E C socket s =
     (let s = emit (Gio (Socket_ref socket)) s;
          (received, s) = ask (g_socket_receive E) (Gio (Socket_receive socket 1024)) s;
          (action, s) =
            (case received of
               None \<Rightarrow> (False, disconnect C (NSVR_LOG ''Unable to receive socket data'' s))
             | Some bytes \<Rightarrow>
                 if bytes = [] then (True, log_error False ''Receiver Peer connection closed by sender Peer'' s)
                 else if isConnected C s then
                   (case buffer_text 1024 bytes of
                      None \<Rightarrow> (True, emit (Fault ''receive buffer without a terminator'') s)
                    | Some text \<Rightarrow> (True, Client_onMessage C text s))
                 else (False, NSVR_LOG ''Peer received a message but it is disconnected.'' s))
      in (action, emit (Gio (Socket_unref socket)) s))"

text \<open>\<open>iterate\<close>. The context is read afresh in each round: a callback may have disconnected the
  client, and the null context is the default one of the process, whose callbacks are not ours.\<close>

fun Client_iterate_loop :: "nat \<Rightarrow> env \<Rightarrow> 'a world_scheme client_class \<Rightarrow> 'a world_scheme \<Rightarrow> 'a world_scheme" where
  "Client_iterate_loop 0 E C s = emit Diverged s"
| "Client_iterate_loop (Suc n) E C s =
     (let (pending, s) = ask (g_main_context_pending E) (Gio (Context_pending (mContext (get_client C s)))) s in
      if \<not> pending then s
      else
        (let ctx = mContext (get_client C s);
             (ours, s) = ask (g_main_context_iteration E) (Gio (Context_iteration ctx)) s
         in Client_iterate_loop n E C
              (if ours \<and> ctx \<noteq> None then snd (incomming E C (mReceiveSocket (get_client C s)) s) else s)))"

definition Client_iterate :: "env \<Rightarrow> 'a world_scheme client_class \<Rightarrow> 'a world_scheme \<Rightarrow> 'a world_scheme" where
  "Client_iterate E C s = (if \<not> isConnected C s then s else Client_iterate_loop (loop_bound E) E C s)"

definition Client_dtor :: "'a world_scheme client_class \<Rightarrow> 'a world_scheme \<Rightarrow> 'a world_scheme" where
  "Client_dtor C s = (if isConnected C s then disconnect C s else s)"

section \<open>Correctness\<close>

text \<open>A connected client holds all four of its objects; one that is not holds neither context nor
  source.\<close>

definition client_ok :: "client \<Rightarrow> bool" where
  "client_ok c \<longleftrightarrow>
     (if mConnected c then mReceiveSocket c \<noteq> None \<and> mListenAddress c \<noteq> None \<and> mContext c \<noteq> None \<and> mSource c \<noteq> None
      else mContext c = None \<and> mSource c = None)"

definition cleared :: "client \<Rightarrow> client" where
  "cleared c = c\<lparr>mSource := None, mContext := None, mListenAddress := None, mReceiveSocket := None,
     mConnected := False\<rparr>"

locale client_object = sub_object "get_client C" "put_client C"
  for C :: "'a world_scheme client_class"
begin

lemma get_clear [simp]: "get_client C (clear_object f p s) = get_client C s"
  by (simp add: clear_object_def)

lemma get_log_error [simp]: "get_client C (log_error b m s) = get_client C s"
  by (simp add: log_error_def)

lemma disconnect_get:
  "get_client C (disconnect C s) = (if isConnected C s then cleared (get_client C s) else get_client C s)"
  by (simp add: disconnect_def isConnected_def cleared_def Let_def)

lemma disconnect_ok: "client_ok (get_client C s) \<Longrightarrow> client_ok (get_client C (disconnect C s))"
  by (simp add: disconnect_get client_ok_def cleared_def isConnected_def)

lemma disconnect_not_connected: "\<not> mConnected (get_client C (disconnect C s))"
  by (simp add: disconnect_get cleared_def isConnected_def)

lemma connect_get:
  assumes "connect E C a p s = (ok, t)" and "client_ok (get_client C s)"
  shows "mConnected (get_client C t) = ok \<and> mServerAddress (get_client C t) = a \<and>
    mServerPort (get_client C t) = p \<and> client_ok (get_client C t)"
proof -
  define u where "u = (if isConnected C s then disconnect C s else s)"
  have "client_ok (get_client C u)" "\<not> mConnected (get_client C u)"
    using disconnect_ok [of s] disconnect_not_connected [of s] assms(2)
    by (auto simp: u_def isConnected_def)
  then show ?thesis using assms(1)
    by (auto simp: connect_def u_def [symmetric] ask_def Let_def client_ok_def split: if_splits)
qed

lemma sendToServer_get [simp]: "get_client C (sendToServer E C m s) = get_client C s"
  by (simp add: sendToServer_def ask_def Let_def)

lemma incomming_ok:
  assumes "\<And>m s. client_ok (get_client C s) \<Longrightarrow> client_ok (get_client C (Client_onMessage C m s))"
    and "client_ok (get_client C s)"
  shows "client_ok (get_client C (snd (incomming E C sock s)))"
  using assms
  by (auto simp: incomming_def ask_def Let_def disconnect_ok split: option.split)

lemma iterate_loop_ok:
  assumes "\<And>m s. client_ok (get_client C s) \<Longrightarrow> client_ok (get_client C (Client_onMessage C m s))"
    and "client_ok (get_client C s)"
  shows "client_ok (get_client C (Client_iterate_loop n E C s))"
  using assms(2)
proof (induction n arbitrary: s)
  case (Suc n)
  then show ?case using incomming_ok [OF assms(1)] by (simp add: ask_def Let_def)
qed simp

end

text \<open>A client that is not part of a larger object; its \<open>onMessage\<close> does nothing.\<close>

record client_process = world +
  the_client :: client

definition plain_client :: "client_process client_class" where
  "plain_client = \<lparr>get_client = the_client, put_client = (\<lambda>c s. s\<lparr>the_client := c\<rparr>),
     Client_onMessage = (\<lambda>_ s. s)\<rparr>"

interpretation plain_client: sub_object "get_client plain_client" "put_client plain_client"
  by unfold_locales (simp_all add: plain_client_def emit_def)

lemma plain_client_object: "client_object plain_client"
  by (intro client_object.intro plain_client.sub_object_axioms)

text \<open>A fresh client and a connected one.\<close>

definition demo_client :: client_process where
  "demo_client = \<lparr>trace = [], saved_volume = 1, the_client = new_client\<rparr>"

definition connected_client :: client_process where
  "connected_client = demo_client\<lparr>the_client := \<lparr>mServerAddress = ''10.0.0.1'', mReceiveSocket = Some 11,
     mListenAddress = Some 12, mContext = Some 13, mSource = Some 14, mServerPort = 5000,
     mConnected = True\<rparr>\<rparr>"

lemma demo_client_facts:
  "client_ok (get_client plain_client demo_client)" "client_ok (get_client plain_client connected_client)"
  "isConnected plain_client connected_client" "get_client plain_client connected_client = the_client connected_client"
  by (simp_all add: demo_client_def connected_client_def new_client_def client_ok_def plain_client_def isConnected_def)

text \<open>Disconnecting gives back the source, the context, the address and the socket of a connected
  client, each once, and disconnecting again does nothing.\<close>

lemma disconnect_releases:
  assumes "client_object C" and "client_ok (get_client C s)" and "isConnected C s"
  shows "trace (disconnect C s) =
      [Logged ''Peer is disconnected.'', Gio (Socket_unref (mReceiveSocket (get_client C s))),
       Gio (Address_unref (mListenAddress (get_client C s))),
       Gio (Context_unref (mContext (get_client C s))), Gio (Source_unref (mSource (get_client C s)))] @ trace s
    \<and> disconnect C (disconnect C s) = disconnect C s"
proof
  have c: "mConnected (get_client C s)" "mListenAddress (get_client C s) \<noteq> None"
      "mReceiveSocket (get_client C s) \<noteq> None"
    using assms(2,3) by (simp_all add: isConnected_def client_ok_def)
  note laws = client_object.axioms [OF assms(1), THEN sub_object.trace_put]
    client_object.disconnect_get [OF assms(1)]
  show "trace (disconnect C s) =
      [Logged ''Peer is disconnected.'', Gio (Socket_unref (mReceiveSocket (get_client C s))),
       Gio (Address_unref (mListenAddress (get_client C s))),
       Gio (Context_unref (mContext (get_client C s))), Gio (Source_unref (mSource (get_client C s)))] @ trace s"
    using c by (auto simp: disconnect_def isConnected_def clear_object_def Let_def laws)
  have "\<not> isConnected C (disconnect C s)"
    using client_object.disconnect_not_connected [OF assms(1)] by (simp add: isConnected_def)
  then show "disconnect C (disconnect C s) = disconnect C s" by (simp add: disconnect_def [of C "disconnect C s"])
qed

text \<open>A datagram of one to 1023 bytes that arrives at a connected client is handed to \<open>onMessage\<close>
  exactly once, up to its first zero byte, and the source stays.\<close>

lemma datagram_is_delivered:
  assumes "client_object C" and "isConnected C s"
    and "h = [Gio (Socket_receive sock 1024), Gio (Socket_ref sock)]"
    and "g_socket_receive E (h @ trace s) = Some bytes" and "bytes \<noteq> []" and "length bytes < 1024"
  shows "incomming E C sock s =
    (True, emit (Gio (Socket_unref sock))
      (Client_onMessage C (c_str bytes) (emit (Gio (Socket_receive sock 1024)) (emit (Gio (Socket_ref sock)) s))))"
  using assms(2-6) client_object.axioms [OF assms(1), THEN sub_object.get_emit]
  by (simp add: incomming_def ask_def Let_def isConnected_def buffer_text_short)

text \<open>C38: a failing receive disconnects the client, asks for the removal of the source and delivers
  nothing; the rest of \<open>iterate\<close> then runs on the null context, the default one of the process.\<close>

theorem receive_error_disconnects:
  assumes "client_object C" and "client_ok (get_client C s)"
    and "h = [Gio (Socket_receive sock 1024), Gio (Socket_ref sock)]"
    and "g_socket_receive E (h @ trace s) = None" and "incomming E C sock s = (action, t)"
  shows "\<not> action \<and> \<not> isConnected C t \<and>
    (\<exists>u. Client_iterate_loop (Suc n) E C t =
      (if g_main_context_pending E (Gio (Context_pending None) # trace t)
       then Client_iterate_loop n E C (emit (Gio (Context_iteration None)) u) else u) \<and>
       u = emit (Gio (Context_pending None)) t)"
proof -
  note laws = client_object.axioms [OF assms(1), THEN sub_object.get_emit]
  let ?v = "NSVR_LOG ''Unable to receive socket data''
      (emit (Gio (Socket_receive sock 1024)) (emit (Gio (Socket_ref sock)) s))"
  have t: "\<not> action" "t = emit (Gio (Socket_unref sock)) (disconnect C ?v)"
    using assms(3-5) by (auto simp: incomming_def ask_def Let_def)
  have "client_ok (get_client C (disconnect C ?v))" "\<not> mConnected (get_client C (disconnect C ?v))"
    using assms(2) by (simp_all add: client_object.disconnect_ok [OF assms(1)]
        client_object.disconnect_not_connected [OF assms(1)] laws)
  then have "\<not> mConnected (get_client C t)" "mContext (get_client C t) = None"
    using t(2) by (simp_all add: client_ok_def laws)
  then show ?thesis using t(1) by (simp add: isConnected_def ask_def Let_def laws)
qed

theorem receive_error_disconnects_witness:
  "\<exists>action t. incomming calm plain_client (Some 11) connected_client = (action, t) \<and> \<not> action \<and>
    \<not> isConnected plain_client t \<and>
    (\<exists>u. Client_iterate_loop (Suc 3) calm plain_client t =
      (if g_main_context_pending calm (Gio (Context_pending None) # trace t)
       then Client_iterate_loop 3 calm plain_client (emit (Gio (Context_iteration None)) u) else u) \<and>
       u = emit (Gio (Context_pending None)) t)"
proof -
  obtain action t where i: "incomming calm plain_client (Some 11) connected_client = (action, t)"
    by fastforce
  have "g_socket_receive calm ([Gio (Socket_receive (Some 11) 1024), Gio (Socket_ref (Some 11))] @
      trace connected_client) = None"
    by simp
  from receive_error_disconnects [OF plain_client_object demo_client_facts(2) HOL.refl this i, of 3]
  show ?thesis using i by blast
qed

text \<open>\<open>iterate\<close> keeps the client consistent, however many callbacks it runs and whatever they
  receive, as long as \<open>onMessage\<close> does.\<close>

lemma iterate_keeps_client_ok:
  assumes "client_object C" and "client_ok (get_client C s)"
    and "\<And>m s. client_ok (get_client C s) \<Longrightarrow> client_ok (get_client C (Client_onMessage C m s))"
  shows "client_ok (get_client C (Client_iterate E C s))"
  using client_object.iterate_loop_ok [OF assms(1,3,2)] assms(2) by (simp add: Client_iterate_def)

text \<open>The steps of sending a message, newest first.\<close>

definition sending :: "client \<Rightarrow> string \<Rightarrow> event list" where
  "sending c message =
     [Gio (Stream_write message), Gio Get_output_stream,
      Gio (Connect_to_host (c_str (mServerAddress c)) (mServerPort c)), Gio Socket_client_new]"

text \<open>\<open>sendToServer\<close> does nothing without an address or with a port that is not positive.
  Otherwise, when the connection is made and its stream obtained, the message is written in one
  piece, once, and the connection and the socket client are given back, whether the write
  succeeds or not. The client itself is left alone.\<close>

lemma sendToServer_correct:
  assumes "client_object C" and "c = get_client C s" and "t = sendToServer E C message s"
    and "g_socket_client_new E (drop 3 (sending c message) @ trace s)"
    and "g_socket_client_connect_to_host E (drop 2 (sending c message) @ trace s)"
    and "g_io_stream_get_output_stream E (drop 1 (sending c message) @ trace s)"
  shows "get_client C t = c \<and>
    (if mServerAddress c = [] \<or> sint (mServerPort c) \<le> 0 then t = s
     else filter (\<lambda>e. \<not> is_log e) (trace t) =
       [Gio Socket_client_unref, Gio Connection_unref] @ sending c message @
       filter (\<lambda>e. \<not> is_log e) (trace s))"
  using assms client_object.sendToServer_get [OF assms(1), of E message s]
  by (auto simp: sendToServer_def sending_def ask_def Let_def)

text \<open>A failed bind leaks. When \<open>connect\<close> fails after the socket has been made, the client keeps
  the socket but counts as not connected, so that destroying it releases nothing.\<close>

lemma failed_connect_leaks_socket:
  assumes "client_object C" and "client_ok (get_client C s)"
    and "connect E C address port s = (False, t)" and "mReceiveSocket (get_client C t) = Some sock"
  shows "Client_dtor C t = t"
  using client_object.connect_get [OF assms(1,3,2)]
  by (simp add: Client_dtor_def isConnected_def)

end
