(* ===== verification/Server.thy ===== *)
theory Server
  imports Internal "HOL-Library.AList" "HOL-Library.Multiset"
begin

text \<open>
  The network server of \<open>nsvr_server.hpp/.cpp\<close>: it accepts connections, remembers the address of each
  client that has sent something as an endpoint, and broadcasts datagrams to the endpoints. The
  class is a base class of \<open>PlayerServer\<close>: its members are the record \<open>server\<close>, reached through a
  \<open>server_class\<close>. The endpoint map is an association list with distinct keys; the order in which
  the \<open>unordered_map\<close> is walked is the environment's.
\<close>

section \<open>State\<close>

record endpoint =
  mEndpointSocket :: ptr
  mEndpointAddress :: ptr

record server =
  mEndpoints :: "(string \<times> endpoint) list"
  srv_mListenAddress :: string
  mSocketService :: ptr
  mListenPort :: int16

record 's server_class =
  get_server :: "'s \<Rightarrow> server"
  put_server :: "server \<Rightarrow> 's \<Rightarrow> 's"
  Server_onMessage :: "string \<Rightarrow> 's \<Rightarrow> 's"

definition UdpEndpoint :: endpoint where
  "UdpEndpoint = \<lparr>mEndpointSocket = None, mEndpointAddress = None\<rparr>"

definition new_server :: server where
  "new_server = \<lparr>mEndpoints = [], srv_mListenAddress = [], mSocketService = None, mListenPort = 0\<rparr>"

section \<open>Endpoints\<close>

definition UdpEndpoint_setup ::
  "env \<Rightarrow> string \<Rightarrow> int16 \<Rightarrow> endpoint \<Rightarrow> 'a world_scheme \<Rightarrow> endpoint \<times> 'a world_scheme" where
  "UdpEndpoint_setup E ip port ep s =
     (let s = (if mEndpointSocket ep \<noteq> None then emit (Gio (Socket_unref (mEndpointSocket ep))) s else s);
          s = (if mEndpointAddress ep \<noteq> None then emit (Gio (Address_unref (mEndpointAddress ep))) s else s);
          ep = ep\<lparr>mEndpointSocket := None\<rparr>;
          (addr, s) = ask (g_inet_socket_address_new E) (Gio (Endpoint_address_new (c_str ip) port)) s;
          ep = ep\<lparr>mEndpointAddress := addr\<rparr> in
      if addr = None then
        (ep, BindToScope_dtor Scoped_GInetAddress (NSVR_LOG ''Endpoint address could not be constructed'' s))
      else
        (let (sock, s) = ask (g_socket_new E) (Gio Socket_new) s;
             ep = ep\<lparr>mEndpointSocket := sock\<rparr>;
             s = (if sock = None then NSVR_LOG ''Unable to construct send soccket'' s
                  else emit (Gio (Socket_set_blocking sock)) s)
         in (ep, BindToScope_dtor Scoped_GInetAddress s)))"

definition UdpEndpoint_send :: "env \<Rightarrow> string \<Rightarrow> nat \<Rightarrow> endpoint \<Rightarrow> 'a world_scheme \<Rightarrow> 'a world_scheme" where
  "UdpEndpoint_send E message timeout ep s =
     (if mEndpointAddress ep = None \<or> mEndpointSocket ep = None then s
      else
        (let (current, s) = ask (g_socket_get_timeout E) (Gio (Socket_get_timeout (mEndpointSocket ep))) s;
             s = (if current \<noteq> timeout then emit (Gio (Socket_set_timeout (mEndpointSocket ep) timeout)) s else s);
             (ok, s) = ask (g_socket_send_to E)
               (Gio (Socket_send_to (mEndpointSocket ep) (mEndpointAddress ep) message)) s
         in if ok then s else NSVR_LOG ''Server was unable to send a message'' s))"

section \<open>Methods\<close>

definition isListening :: "env \<Rightarrow> 'a world_scheme server_class \<Rightarrow> 'a world_scheme \<Rightarrow> bool \<times> 'a world_scheme" where
  "isListening E C s =
     (case mSocketService (get_server C s) of
        None \<Rightarrow> (False, s)
      | Some svc \<Rightarrow> ask (g_socket_service_is_active E) (Gio (Service_is_active (Some svc))) s)"

definition shutdown :: "env \<Rightarrow> 'a world_scheme server_class \<Rightarrow> 'a world_scheme \<Rightarrow> 'a world_scheme" where
  "shutdown E C s =
     (let (listening, s) = isListening E C s in
      if \<not> listening then s
      else
        (let c = get_server C s; s = emit (Gio (Service_stop (mSocketService c))) s
         in put_server C (c\<lparr>mSocketService := None, mListenPort := 0\<rparr>) s))"

definition listen ::
  "env \<Rightarrow> 'a world_scheme server_class \<Rightarrow> string \<Rightarrow> int16 \<Rightarrow> 'a world_scheme \<Rightarrow> bool \<times> 'a world_scheme" where
  "listen E C listen_address listen_port s =
     (let (listening, s) = isListening E C s;
          s = (if listening then shutdown E C s else s);
          c = (get_server C s)\<lparr>srv_mListenAddress := listen_address, mListenPort := listen_port\<rparr>;
          s = put_server C c s;
          (valid, s) = ask (g_inet_socket_address_new_from_string E)
            (Gio (Address_from_string (c_str listen_address) listen_port)) s in
      if \<not> valid then (False, NSVR_LOG ''Invalid address passed to Server'' s)
      else
        (let (svc, s) = ask (g_socket_service_new E) (Gio Service_new) s;
             s = put_server C (c\<lparr>mSocketService := svc\<rparr>) s in
         if svc = None then
           (False, BindToScope_dtor Scoped_GSocketAddress (NSVR_LOG ''Unable to construct socket service.'' s))
         else
           (let (bound, s) = ask (g_socket_listener_add_address E) (Gio (Listener_add_address svc)) s in
            if \<not> bound then
              (False, BindToScope_dtor Scoped_GSocketAddress (NSVR_LOG ''Unable to bind Server to address'' s))
            else
              (let s = emit (Gio (Connect_incoming svc)) s;
                   s = emit (Gio (Service_start svc)) s
               in isListening E C (BindToScope_dtor Scoped_GSocketAddress s)))))"

definition getListenPort :: "'a world_scheme server_class \<Rightarrow> 'a world_scheme \<Rightarrow> int16" where
  "getListenPort C s = mListenPort (get_server C s)"

definition getListenAddress :: "'a world_scheme server_class \<Rightarrow> 'a world_scheme \<Rightarrow> string" where
  "getListenAddress C s = srv_mListenAddress (get_server C s)"

definition broadcastToClients ::
  "env \<Rightarrow> 'a world_scheme server_class \<Rightarrow> string \<Rightarrow> 'a world_scheme \<Rightarrow> 'a world_scheme" where
  "broadcastToClients E C message s =
     (let eps = mEndpoints (get_server C s) in
      if eps = [] then s
      else fold (\<lambda>ip s. case map_of eps ip of None \<Rightarrow> s | Some ep \<Rightarrow> UdpEndpoint_send E message 1 ep s)
             (unordered E (trace s) (map fst eps)) s)"

text \<open>A new endpoint is put into the map first and set up in place.\<close>

definition learn_endpoint ::
  "env \<Rightarrow> 'a world_scheme server_class \<Rightarrow> string \<Rightarrow> 'a world_scheme \<Rightarrow> 'a world_scheme" where
  "learn_endpoint E C ip s =
     (let c = get_server C s in
      if map_of (mEndpoints c) ip \<noteq> None then s
      else
        (let (ep, s) = UdpEndpoint_setup E ip (getListenPort C s) UdpEndpoint s
         in put_server C (c\<lparr>mEndpoints := AList.update ip ep (mEndpoints c)\<rparr>) s))"

text \<open>The signal handler of an incoming connection.\<close>

definition Server_incoming ::
  "env \<Rightarrow> 'a world_scheme server_class \<Rightarrow> 'a world_scheme \<Rightarrow> 'a world_scheme" where
  "Server_incoming E C s =
     (let (stream, s) = ask (g_io_stream_get_input_stream E) (Gio Get_input_stream) s in
      if \<not> stream then s
      else
        (let (received, s) = ask (g_input_stream_read E) (Gio (Stream_read 16)) s in
         case received of
           None \<Rightarrow> NSVR_LOG ''Unable to read the input stream.'' s
         | Some bytes \<Rightarrow>
             (let (ip, s) = getIp E s; s = learn_endpoint E C ip s in
              case buffer_text 16 bytes of
                None \<Rightarrow> emit (Fault ''read buffer without a terminator'') s
              | Some text \<Rightarrow> Server_onMessage C text s)))"

text \<open>\<open>iterate\<close> runs the default context of the process, \<open>None\<close>.\<close>

fun Server_iterate_loop :: "nat \<Rightarrow> env \<Rightarrow> 'a world_scheme server_class \<Rightarrow> 'a world_scheme \<Rightarrow> 'a world_scheme" where
  "Server_iterate_loop 0 E C s = emit Diverged s"
| "Server_iterate_loop (Suc n) E C s =
     (let (pending, s) = ask (g_main_context_pending E) (Gio (Context_pending None)) s in
      if \<not> pending then s
      else
        (let (ours, s) = ask (g_main_context_iteration E) (Gio (Context_iteration None)) s
         in Server_iterate_loop n E C (if ours then Server_incoming E C s else s)))"

definition Server_iterate :: "env \<Rightarrow> 'a world_scheme server_class \<Rightarrow> 'a world_scheme \<Rightarrow> 'a world_scheme" where
  "Server_iterate E C s = Server_iterate_loop (loop_bound E) E C s"

text \<open>The destructor: \<open>shutdown\<close>, then the members, each endpoint releasing its two objects.\<close>

definition UdpEndpoint_dtor :: "endpoint \<Rightarrow> 'a world_scheme \<Rightarrow> 'a world_scheme" where
  "UdpEndpoint_dtor ep s =
     (let s = (if mEndpointSocket ep \<noteq> None then emit (Gio (Socket_unref (mEndpointSocket ep))) s else s)
      in if mEndpointAddress ep \<noteq> None then emit (Gio (Address_unref (mEndpointAddress ep))) s else s)"

definition Server_dtor :: "env \<Rightarrow> 'a world_scheme server_class \<Rightarrow> 'a world_scheme \<Rightarrow> 'a world_scheme" where
  "Server_dtor E C s =
     (let (listening, s) = isListening E C s;
          s = (if listening then shutdown E C s else s);
          eps = mEndpoints (get_server C s)
      in fold (\<lambda>ip s. case map_of eps ip of None \<Rightarrow> s | Some ep \<Rightarrow> UdpEndpoint_dtor ep s)
           (unordered E (trace s) (map fst eps)) s)"

section \<open>Correctness\<close>

locale server_object = sub_object "get_server C" "put_server C"
  for C :: "'a world_scheme server_class"
begin

lemma isListening_get: "isListening E C s = (b, t) \<Longrightarrow> get_server C t = get_server C s"
  by (auto simp: isListening_def ask_def split: option.splits)

lemma isListening_service: "isListening E C s = (True, t) \<Longrightarrow> mSocketService (get_server C s) \<noteq> None"
  by (auto simp: isListening_def split: option.splits)

lemma shutdown_get:
  "get_server C (shutdown E C s) =
     (if fst (isListening E C s) then (get_server C s)\<lparr>mSocketService := None, mListenPort := 0\<rparr>
      else get_server C s)"
  by (auto simp: shutdown_def Let_def split: prod.split dest: isListening_get)

lemma setup_get: "UdpEndpoint_setup E ip port ep s = (ep', t) \<Longrightarrow> get_server C t = get_server C s"
  by (auto simp: UdpEndpoint_setup_def ask_def Let_def split: if_splits)

lemma getIp_get: "getIp E s = (ip, t) \<Longrightarrow> get_server C t = get_server C s"
  by (auto simp: getIp_def ask_def Let_def split: if_splits option.splits)

lemma send_get [simp]: "get_server C (UdpEndpoint_send E m n ep s) = get_server C s"
  by (simp add: UdpEndpoint_send_def ask_def Let_def)

lemma broadcast_get [simp]: "get_server C (broadcastToClients E C m s) = get_server C s"
proof -
  have "get_server C (fold (\<lambda>ip s. case map_of eps ip of None \<Rightarrow> s | Some ep \<Rightarrow> UdpEndpoint_send E m 1 ep s) ips s) =
    get_server C s" for eps ips s
    by (induction ips arbitrary: s) (auto split: option.split)
  then show ?thesis unfolding broadcastToClients_def Let_def
    by (intro if_pred [of "\<lambda>t. get_server C t = get_server C s"] HOL.refl)
qed

text \<open>Learning an endpoint only ever adds one.\<close>

lemma learn_endpoint_get:
  "get_server C (learn_endpoint E C ip s) =
     (if map_of (mEndpoints (get_server C s)) ip \<noteq> None then get_server C s
      else (get_server C s)\<lparr>mEndpoints := AList.update ip
        (fst (UdpEndpoint_setup E ip (getListenPort C s) UdpEndpoint s)) (mEndpoints (get_server C s))\<rparr>)"
  by (auto simp: learn_endpoint_def Let_def split: prod.split)

lemma learn_endpoint_distinct:
  "distinct (map fst (mEndpoints (get_server C s))) \<Longrightarrow>
     distinct (map fst (mEndpoints (get_server C (learn_endpoint E C ip s))))"
  by (simp add: learn_endpoint_get distinct_update)

lemma isListening_put:
  "mSocketService c = Some svc \<Longrightarrow> isListening E C (put_server C c s) =
     (g_socket_service_is_active E (Gio (Service_is_active (Some svc)) # trace s),
      put_server C c (emit (Gio (Service_is_active (Some svc))) s))"
  by (simp add: isListening_def ask_def)

lemma listen_cases:
  assumes "listen E C address port s = (ok, t)"
  shows "srv_mListenAddress (get_server C t) = address \<and> mListenPort (get_server C t) = port \<and>
    mEndpoints (get_server C t) = mEndpoints (get_server C s) \<and>
    (ok \<longrightarrow> (\<exists>h svc. mSocketService (get_server C t) = Some svc \<and>
      trace t = Gio (Service_is_active (Some svc)) # Gio Scoped_address_unref # Gio (Service_start (Some svc)) # Gio (Connect_incoming (Some svc)) # h \<and>
      g_socket_service_is_active E (trace t) \<and>
      g_socket_listener_add_address E h))"
proof -
  obtain b u where u: "isListening E C s = (b, u)" by fastforce
  have "mEndpoints (get_server C (if b then shutdown E C u else u)) = mEndpoints (get_server C s)"
    using isListening_get [OF u] by (simp add: shutdown_get)
  then show ?thesis using assms
    by (auto simp: listen_def u ask_def Let_def isListening_put split: if_splits option.splits)
qed

end

text \<open>A server that is not part of a larger object.\<close>

record server_process = world +
  the_server :: server

definition plain_server :: "server_process server_class" where
  "plain_server = \<lparr>get_server = the_server, put_server = (\<lambda>c s. s\<lparr>the_server := c\<rparr>),
     Server_onMessage = (\<lambda>_ s. s)\<rparr>"

interpretation plain_server: sub_object "get_server plain_server" "put_server plain_server"
  by unfold_locales (simp_all add: plain_server_def emit_def)

lemma plain_server_object: "server_object plain_server"
  by (intro server_object.intro plain_server.sub_object_axioms)

text \<open>Listening. \<open>listen\<close> records address and port whether it succeeds or not and keeps the known
  endpoints; when it answers true, the address was bound, the signal handler was connected before
  the service was started, and the service has just been found active.\<close>

lemma listen_correct:
  assumes "server_object C" and "listen E C address port s = (ok, t)"
  shows "getListenAddress C t = address \<and> getListenPort C t = port \<and>
    mEndpoints (get_server C t) = mEndpoints (get_server C s) \<and>
    (ok \<longrightarrow> (\<exists>h svc. mSocketService (get_server C t) = Some svc \<and>
      trace t = [Gio (Service_is_active (Some svc)), Gio Scoped_address_unref, Gio (Service_start (Some svc)),
        Gio (Connect_incoming (Some svc))] @ h \<and>
      g_socket_service_is_active E (trace t) \<and> g_socket_listener_add_address E h))"
  using server_object.listen_cases [OF assms]
  by (simp add: getListenAddress_def getListenPort_def)

text \<open>A fresh server, and one that listens and knows two clients, one of them not set up.\<close>

definition demo_server :: server_process where
  "demo_server = \<lparr>trace = [], saved_volume = 1, the_server = new_server\<rparr>"

definition listening_server :: server_process where
  "listening_server = demo_server\<lparr>the_server := \<lparr>mEndpoints = [(''10.0.0.3'', \<lparr>mEndpointSocket = Some 11,
     mEndpointAddress = Some 12\<rparr>), (''10.0.0.4'', UdpEndpoint)], srv_mListenAddress = ''0.0.0.0'',
     mSocketService = Some 15, mListenPort = 5000\<rparr>\<rparr>"

lemma demo_server_facts:
  "mSocketService (get_server plain_server demo_server) = None"
  "get_server plain_server demo_server = new_server"
  "get_server plain_server listening_server = the_server listening_server"
  "distinct (map fst (mEndpoints (get_server plain_server listening_server)))"
  by (simp_all add: demo_server_def listening_server_def new_server_def plain_server_def)

text \<open>A server that failed to bind may still count as listening. The service made before the
  failed bind is kept, and GIO's services are active from the start.\<close>

lemma failed_bind_still_listening:
  assumes "server_object C" and "mSocketService (get_server C s) = None"
    and "h = [Gio Service_new, Gio (Address_from_string (c_str address) port)]"
    and "g_inet_socket_address_new_from_string E (tl h @ trace s)"
    and "g_socket_service_new E (h @ trace s) = Some svc"
    and "\<not> g_socket_listener_add_address E (Gio (Listener_add_address (Some svc)) # h @ trace s)"
    and "\<And>g. g_socket_service_is_active E (Gio (Service_is_active (Some svc)) # g)"
  shows "\<exists>t u. listen E C address port s = (False, t) \<and> isListening E C t = (True, u)"
  using assms(2-7) server_object.axioms [OF assms(1)]
  by (simp add: listen_def isListening_def ask_def Let_def sub_object.get_put sub_object.get_emit
      sub_object.trace_put sub_object.emit_put)

text \<open>Shutting down stops the service, forgets it and its port; a server that is not listening is
  left alone. No call gives the service back.\<close>

lemma shutdown_correct:
  assumes "server_object C" and "t = shutdown E C s"
    and "isListening E C s = (listening, u)"
  shows "(if listening then get_server C t = (get_server C s)\<lparr>mSocketService := None, mListenPort := 0\<rparr> \<and>
      trace t = Gio (Service_stop (mSocketService (get_server C s))) # trace u \<and> fst (isListening E C t) = False
    else t = u)"
  using assms(2,3) server_object.axioms [OF assms(1)] server_object.isListening_get [OF assms(1,3)]
  by (auto simp: shutdown_def Let_def isListening_def sub_object.get_put sub_object.trace_put
      sub_object.emit_put split: option.splits)

text \<open>C39: endpoints. Handling a connection never forgets an endpoint, never sets one up again, keeps
  the keys distinct, and afterwards the address the connection came from is known - whether its
  set-up succeeded or not, and as long as \<open>onMessage\<close> leaves the endpoints alone.\<close>

theorem incoming_learns_endpoint:
  assumes "server_object C" and "distinct (map fst (mEndpoints (get_server C s)))"
    and "\<And>m s. get_server C (Server_onMessage C m s) = get_server C s"
    and "t = Server_incoming E C s"
    and "h = [Gio (Stream_read 16), Gio Get_input_stream]"
    and "g_io_stream_get_input_stream E (tl h @ trace s)"
    and "g_input_stream_read E (h @ trace s) = Some bytes"
    and "getIp E (emit (Gio (Stream_read 16)) (emit (Gio Get_input_stream) s)) = (ip, u)"
  shows "distinct (map fst (mEndpoints (get_server C t))) \<and>
    map_of (mEndpoints (get_server C t)) ip \<noteq> None \<and>
    map_of (mEndpoints (get_server C s)) \<subseteq>\<^sub>m map_of (mEndpoints (get_server C t))"
proof -
  let ?v = "learn_endpoint E C ip u"
  note laws = server_object.axioms [OF assms(1), THEN sub_object.get_emit]
  have u: "get_server C u = get_server C s"
    using server_object.getIp_get [OF assms(1,8)] by (simp add: laws)
  have t: "get_server C t = get_server C ?v"
    using assms(3-8) by (simp add: Server_incoming_def ask_def Let_def laws split: option.split)
  define ep where "ep = fst (UdpEndpoint_setup E ip (getListenPort C u) UdpEndpoint u)"
  let ?m = "map_of (mEndpoints (get_server C s))"
  have "map_of (mEndpoints (get_server C t)) = (if ?m ip = None then ?m(ip \<mapsto> ep) else ?m)"
    by (simp add: t u server_object.learn_endpoint_get [OF assms(1)] update_conv' ep_def
        del: map_of_eq_None_iff)
  then show ?thesis
    using assms(2) server_object.learn_endpoint_distinct [OF assms(1), of u E ip]
    by (auto simp: t u map_le_def simp del: map_of_eq_None_iff)
qed

lemma calm_stream: "g_io_stream_get_input_stream calm h"
  and calm_read: "g_input_stream_read calm h = Some ''nsvr''"
  by simp_all

theorem incoming_learns_endpoint_witness:
  "\<exists>t. t = Server_incoming calm plain_server listening_server \<and>
    map_of (mEndpoints (get_server plain_server t)) ''10.0.0.2'' \<noteq> None \<and>
    map_of (mEndpoints (get_server plain_server listening_server)) \<subseteq>\<^sub>m map_of (mEndpoints (get_server plain_server t))"
proof -
  let ?s = "emit (Gio (Stream_read 16)) (emit (Gio Get_input_stream) listening_server)"
  have ip: "getIp calm ?s =
    (''10.0.0.2'', emit (Gio Scoped_address_unref) (emit (Gio Address_to_string)
      (emit (Gio Inet_address) (emit (Gio Remote_address) ?s))))"
    by (simp add: getIp_def ask_def c_str_def)
  have "get_server plain_server (Server_onMessage plain_server m s) = get_server plain_server s" for m s
    by (simp add: plain_server_def)
  from incoming_learns_endpoint [OF plain_server_object demo_server_facts(4) this HOL.refl HOL.refl
      calm_stream calm_read ip]
  show ?thesis by blast
qed

text \<open>The datagrams a trace has sent, and the endpoints that can send.\<close>

fun sent :: "event list \<Rightarrow> (ptr \<times> ptr \<times> string) multiset" where
  "sent [] = {#}"
| "sent (e # h) = (case e of Gio (Socket_send_to k a m) \<Rightarrow> add_mset (k, a, m) (sent h) | _ \<Rightarrow> sent h)"

definition ready :: "endpoint \<Rightarrow> bool" where
  "ready ep \<longleftrightarrow> mEndpointAddress ep \<noteq> None \<and> mEndpointSocket ep \<noteq> None"

lemma sent_send:
  "sent (trace (UdpEndpoint_send E message n ep s)) =
     (if ready ep then add_mset (mEndpointSocket ep, mEndpointAddress ep, message) (sent (trace s))
      else sent (trace s))"
  by (auto simp: UdpEndpoint_send_def ready_def ask_def Let_def)

definition datagrams :: "string \<Rightarrow> (string \<times> endpoint) list \<Rightarrow> (ptr \<times> ptr \<times> string) multiset" where
  "datagrams message eps =
     {# (mEndpointSocket ep, mEndpointAddress ep, message). ep \<in># filter_mset ready (mset (map snd eps)) #}"

lemma datagrams_cong: "mset eps = mset eps' \<Longrightarrow> datagrams message eps = datagrams message eps'"
  by (simp only: datagrams_def mset_map)

lemma sent_fold:
  assumes "distinct (map fst eps)" and "set ips \<subseteq> set (map fst eps)"
  shows "sent (trace (fold (\<lambda>ip s. case map_of eps ip of None \<Rightarrow> s
      | Some ep \<Rightarrow> UdpEndpoint_send E message n ep s) ips s)) =
    sent (trace s) + datagrams message (map (\<lambda>ip. (ip, the (map_of eps ip))) ips)"
  using assms(2)
proof (induction ips arbitrary: s)
  case (Cons ip ips)
  then obtain ep where "map_of eps ip = Some ep" using weak_map_of_SomeI by fastforce
  then show ?case using Cons by (simp add: sent_send datagrams_def)
qed (simp add: datagrams_def)

lemma broadcast_sent:
  assumes "distinct (map fst (mEndpoints (get_server C s)))"
    and "\<And>h xs. mset (unordered E h xs) = mset xs"
  shows "sent (trace (broadcastToClients E C message s)) =
    sent (trace s) + datagrams message (mEndpoints (get_server C s))"
proof -
  let ?eps = "mEndpoints (get_server C s)"
  let ?ips = "unordered E (trace s) (map fst ?eps)"
  have ips: "mset ?ips = mset (map fst ?eps)" by (rule assms(2))
  then have "set ?ips \<subseteq> set (map fst ?eps)" using mset_eq_setD by blast
  from sent_fold [OF assms(1) this]
  have "sent (trace (broadcastToClients E C message s)) =
    sent (trace s) + datagrams message (map (\<lambda>ip. (ip, the (map_of ?eps ip))) ?ips)"
    using ips by (cases "?eps = []") (simp_all add: broadcastToClients_def Let_def datagrams_def)
  also have "mset (map (\<lambda>ip. (ip, the (map_of ?eps ip))) ?ips) = mset ?eps"
  proof -
    have "mset (map (\<lambda>ip. (ip, the (map_of ?eps ip))) ?ips) =
      mset (map (\<lambda>ip. (ip, the (map_of ?eps ip))) (map fst ?eps))"
      using ips by (simp only: mset_map)
    also have "map (\<lambda>ip. (ip, the (map_of ?eps ip))) (map fst ?eps) = ?eps"
      using assms(1) by (auto intro!: map_idI simp: comp_def)
    finally show ?thesis .
  qed
  then have "datagrams message (map (\<lambda>ip. (ip, the (map_of ?eps ip))) ?ips) = datagrams message ?eps"
    by (rule datagrams_cong)
  finally show ?thesis .
qed

text \<open>C12: a broadcast sends exactly one datagram with the message to each endpoint whose set-up has
  succeeded and none to the others, whatever order the map is walked in and whichever sends fail.\<close>

theorem broadcast_reaches_every_endpoint:
  assumes "distinct (map fst (mEndpoints (get_server C s)))"
    and "\<And>h xs. mset (unordered E h xs) = mset xs"
  shows "sent (trace (broadcastToClients E C message s)) =
    sent (trace s) + datagrams message (mEndpoints (get_server C s))"
  using assms by (rule broadcast_sent)

theorem broadcast_reaches_every_endpoint_witness:
  "sent (trace (broadcastToClients calm plain_server ''hello'' listening_server)) =
    {#(Some 11, Some 12, ''hello'')#}"
  using broadcast_reaches_every_endpoint [OF demo_server_facts(4), of calm "''hello''"]
  by (simp add: demo_server_facts)
    (simp add: listening_server_def demo_server_def datagrams_def ready_def UdpEndpoint_def)

end
