(* ===== verification/Net_Sockets.thy ===== *)
theory Net_Sockets
  imports Client Server
begin

text \<open>
  The objects of GIO that \<open>Client\<close> and \<open>Server\<close> own: sockets, addresses, main contexts, sources and
  socket services, counted along a history. Every call on such an object must be made while a
  reference to it is held, and never on a null pointer. The locales \<open>client_hook\<close> and \<open>server_hook\<close>
  state what the virtual \<open>onMessage\<close> of a derived class must leave alone for that.
\<close>

section \<open>Counting\<close>

datatype net_kind = K_socket | K_address | K_context | K_source | K_service

fun net_acquires :: "env \<Rightarrow> event \<Rightarrow> event list \<Rightarrow> net_kind \<times> ptr" where
  "net_acquires E (Gio Socket_new) h = (K_socket, g_socket_new E (Gio Socket_new # h))"
| "net_acquires E (Gio (Socket_ref p)) h = (K_socket, p)"
| "net_acquires E (Gio (Socket_address_new n)) h =
     (K_address, g_inet_socket_address_new E (Gio (Socket_address_new n) # h))"
| "net_acquires E (Gio (Endpoint_address_new a n)) h =
     (K_address, g_inet_socket_address_new E (Gio (Endpoint_address_new a n) # h))"
| "net_acquires E (Gio Context_new) h = (K_context, Some (g_main_context_new E (Gio Context_new # h)))"
| "net_acquires E (Gio (Socket_create_source p)) h =
     (K_source, Some (g_socket_create_source E (Gio (Socket_create_source p) # h)))"
| "net_acquires E (Gio Service_new) h = (K_service, g_socket_service_new E (Gio Service_new # h))"
| "net_acquires E e h = (K_socket, None)"

fun net_drops :: "event \<Rightarrow> net_kind \<times> ptr" where
  "net_drops (Gio (Socket_unref p)) = (K_socket, p)"
| "net_drops (Gio (Address_unref p)) = (K_address, p)"
| "net_drops (Gio (Context_unref p)) = (K_context, p)"
| "net_drops (Gio (Source_unref p)) = (K_source, p)"
| "net_drops e = (K_socket, None)"

text \<open>The references a call needs. The null context stands for the default one of the process.\<close>

fun net_needs :: "event \<Rightarrow> (net_kind \<times> ptr) list" where
  "net_needs (Gio (Socket_set_blocking p)) = [(K_socket, p)]"
| "net_needs (Gio (Socket_bind p a)) = [(K_socket, p), (K_address, a)]"
| "net_needs (Gio (Socket_create_source p)) = [(K_socket, p)]"
| "net_needs (Gio (Source_attach k c)) = [(K_source, k), (K_context, c)]"
| "net_needs (Gio (Source_unref k)) = [(K_source, k)]"
| "net_needs (Gio (Context_unref c)) = [(K_context, c)]"
| "net_needs (Gio (Address_unref a)) = [(K_address, a)]"
| "net_needs (Gio (Socket_ref p)) = [(K_socket, p)]"
| "net_needs (Gio (Socket_unref p)) = [(K_socket, p)]"
| "net_needs (Gio (Socket_receive p n)) = [(K_socket, p)]"
| "net_needs (Gio (Context_pending (Some c))) = [(K_context, Some c)]"
| "net_needs (Gio (Context_iteration (Some c))) = [(K_context, Some c)]"
| "net_needs (Gio (Listener_add_address v)) = [(K_service, v)]"
| "net_needs (Gio (Connect_incoming v)) = [(K_service, v)]"
| "net_needs (Gio (Service_start v)) = [(K_service, v)]"
| "net_needs (Gio (Service_is_active v)) = [(K_service, v)]"
| "net_needs (Gio (Service_stop v)) = [(K_service, v)]"
| "net_needs (Gio (Socket_get_timeout p)) = [(K_socket, p)]"
| "net_needs (Gio (Socket_set_timeout p n)) = [(K_socket, p)]"
| "net_needs (Gio (Socket_send_to p a m)) = [(K_socket, p), (K_address, a)]"
| "net_needs e = []"

fun net_balance :: "env \<Rightarrow> event list \<Rightarrow> net_kind \<Rightarrow> nat \<Rightarrow> int" where
  "net_balance E [] k p = 0"
| "net_balance E (e # h) k p =
     net_balance E h k p + count_ref (net_acquires E e h) k p - count_ref (net_drops e) k p"

fun net_owned :: "env \<Rightarrow> event list \<Rightarrow> net_kind \<times> ptr \<Rightarrow> bool" where
  "net_owned E h (k, None) = False"
| "net_owned E h (k, Some p) = (0 < net_balance E h k p)"

fun net_lawful :: "env \<Rightarrow> event list \<Rightarrow> bool" where
  "net_lawful E [] = True"
| "net_lawful E (e # h) = (list_all (net_owned E h) (net_needs e) \<and> net_lawful E h)"

text \<open>What is owned covers \<open>f\<close>, exactly for the kinds \<open>X\<close>.\<close>

definition accounts :: "env \<Rightarrow> (net_kind \<Rightarrow> bool) \<Rightarrow> event list \<Rightarrow> (net_kind \<Rightarrow> nat \<Rightarrow> int) \<Rightarrow> bool" where
  "accounts E X h f \<longleftrightarrow>
     (\<forall>k p. f k p \<le> net_balance E h k p \<and> (X k \<longrightarrow> f k p = net_balance E h k p))"

lemma accounts_step:
  "accounts E X (e # h) f \<longleftrightarrow>
     accounts E X h (\<lambda>k p. f k p - count_ref (net_acquires E e h) k p + count_ref (net_drops e) k p)"
  by (simp add: accounts_def algebra_simps)

lemma accounts_weaken:
  assumes "accounts E X h f" and "\<And>k p. g k p \<le> f k p" and "\<And>k p. X k \<Longrightarrow> g k p = f k p"
  shows "accounts E X h g"
  unfolding accounts_def
  using assms unfolding accounts_def by (metis order_trans)

lemma accounts_eq: "accounts E X h f \<Longrightarrow> (\<And>k p. g k p = f k p) \<Longrightarrow> accounts E X h g"
  by (rule accounts_weaken) simp_all

lemma accounts_owned: "accounts E X h f \<Longrightarrow> 0 < f k p \<Longrightarrow> 0 < net_balance E h k p"
  by (meson accounts_def less_le_trans)

section \<open>The client\<close>

definition client_holds :: "client \<Rightarrow> net_kind \<Rightarrow> nat \<Rightarrow> int" where
  "client_holds c k p = count_ref (K_socket, mReceiveSocket c) k p + count_ref (K_address, mListenAddress c) k p +
     count_ref (K_context, mContext c) k p + count_ref (K_source, mSource c) k p"

text \<open>Contexts and sources are accounted for exactly; sockets and addresses are too when no \<open>connect\<close>
  fails half way (\<open>tight\<close>), since a failed one leaves them behind.\<close>

definition exact :: "bool \<Rightarrow> net_kind \<Rightarrow> bool" where
  "exact tight k \<longleftrightarrow> tight \<or> k = K_context \<or> k = K_source"

text \<open>The client, and the reference \<open>x\<close> held by a running callback.\<close>

definition client_net :: "env \<Rightarrow> bool \<Rightarrow> 'a world_scheme client_class \<Rightarrow> net_kind \<times> ptr \<Rightarrow> 'a world_scheme \<Rightarrow> bool" where
  "client_net E tight C x s \<longleftrightarrow>
     (let c = get_client C s in
      client_ok c \<and> (tight \<longrightarrow> \<not> mConnected c \<longrightarrow> mReceiveSocket c = None \<and> mListenAddress c = None) \<and>
      net_lawful E (trace s) \<and> accounts E (exact tight) (trace s) (\<lambda>k p. client_holds c k p + count_ref x k p))"

text \<open>A connect that gets past the socket succeeds.\<close>

definition binds :: "env \<Rightarrow> bool" where
  "binds E \<longleftrightarrow> (\<forall>h. g_socket_bind E h) \<and> (\<forall>h. g_inet_socket_address_new E h \<noteq> None)"

lemma client_holds_nonneg: "0 \<le> client_holds c k p"
  by (simp add: client_holds_def)

context client_object
begin

lemma client_net_owned:
  assumes "client_net E tight C x s"
  shows "mReceiveSocket (get_client C s) = Some p \<Longrightarrow> 0 < net_balance E (trace s) K_socket p"
    "mListenAddress (get_client C s) = Some p \<Longrightarrow> 0 < net_balance E (trace s) K_address p"
    "mContext (get_client C s) = Some p \<Longrightarrow> 0 < net_balance E (trace s) K_context p"
    "mSource (get_client C s) = Some p \<Longrightarrow> 0 < net_balance E (trace s) K_source p"
    "x = (k, Some p) \<Longrightarrow> 0 < net_balance E (trace s) k p"
proof -
  let ?f = "\<lambda>k p. client_holds (get_client C s) k p + count_ref x k p"
  have a: "accounts E (exact tight) (trace s) ?f" using assms by (simp add: client_net_def Let_def)
  note own = accounts_owned [OF a, of _ p]
  show "mReceiveSocket (get_client C s) = Some p \<Longrightarrow> 0 < net_balance E (trace s) K_socket p"
    "mListenAddress (get_client C s) = Some p \<Longrightarrow> 0 < net_balance E (trace s) K_address p"
    "mContext (get_client C s) = Some p \<Longrightarrow> 0 < net_balance E (trace s) K_context p"
    "mSource (get_client C s) = Some p \<Longrightarrow> 0 < net_balance E (trace s) K_source p"
    using own [of K_socket] own [of K_address] own [of K_context] own [of K_source]
      count_ref_nonneg [of x _ p] by (simp_all add: client_holds_def add_pos_nonneg)
  show "x = (k, Some p) \<Longrightarrow> 0 < net_balance E (trace s) k p"
    using own [of k] client_holds_nonneg [of "get_client C s" k p] by simp
qed

lemma client_net_step:
  assumes "client_net E tight C x s" and "list_all (net_owned E (trace s)) (net_needs e)"
    and "\<And>k p. count_ref y k p = count_ref x k p + count_ref (net_acquires E e (trace s)) k p - count_ref (net_drops e) k p"
  shows "client_net E tight C y (emit e s)"
  using assms by (simp add: client_net_def Let_def accounts_step)

lemma client_net_quiet:
  assumes "client_net E tight C x s" and "list_all (net_owned E (trace s)) (net_needs e)"
    and "snd (net_acquires E e (trace s)) = None" and "snd (net_drops e) = None"
  shows "client_net E tight C x (emit e s)"
  using assms by (cases "net_acquires E e (trace s)"; cases "net_drops e") (simp add: client_net_step)

lemma disconnect_net:
  assumes "client_net E tight C x s"
  shows "client_net E tight C x (disconnect C s)"
proof (cases "isConnected C s")
  case False
  then show ?thesis using assms by (simp add: disconnect_def)
next
  case True
  then obtain k a c g where m: "mReceiveSocket (get_client C s) = Some k" "mListenAddress (get_client C s) = Some a"
      "mContext (get_client C s) = Some c" "mSource (get_client C s) = Some g"
    using assms by (auto simp: client_net_def Let_def client_ok_def isConnected_def)
  have t: "trace (disconnect C s) = [Logged ''Peer is disconnected.'', Gio (Socket_unref (Some k)),
      Gio (Address_unref (Some a)), Gio (Context_unref (Some c)), Gio (Source_unref (Some g))] @ trace s"
    using True by (simp add: disconnect_def clear_object_def m Let_def)
  have c: "get_client C (disconnect C s) = cleared (get_client C s)"
    using True by (simp add: disconnect_get)
  have a: "accounts E (exact tight) (trace (disconnect C s)) (\<lambda>k p. client_holds (cleared (get_client C s)) k p + count_ref x k p)"
    unfolding t append.simps accounts_step net_acquires.simps net_drops.simps
    by (rule accounts_eq [where f = "\<lambda>k p. client_holds (get_client C s) k p + count_ref x k p"])
      (use assms in \<open>auto simp: client_net_def client_holds_def cleared_def m Let_def\<close>)
  show ?thesis
    using assms a client_net_owned [OF assms] m
    by (simp add: client_net_def Let_def c t cleared_def client_ok_def)
qed

lemma connect_net:
  assumes "client_net E tight C x s" and "tight \<longrightarrow> binds E"
  shows "client_net E tight C x (snd (connect E C a p s))"
proof -
  define u where "u = (if isConnected C s then disconnect C s else s)"
  define c where "c = get_client C u"
  have u: "client_net E tight C x u" using assms(1) disconnect_net by (simp add: u_def)
  have "\<not> mConnected c"
    using disconnect_not_connected [of s] by (auto simp: u_def c_def isConnected_def)
  then have c: "mContext c = None" "mSource c = None" "net_lawful E (trace u)"
      "tight \<Longrightarrow> mReceiveSocket c = None \<and> mListenAddress c = None"
      "accounts E (exact tight) (trace u) (\<lambda>k p. client_holds c k p + count_ref x k p)"
    using u by (simp_all add: client_net_def Let_def c_def [symmetric] client_ok_def)
  have nn [simp]: "0 \<le> net_balance E (trace u) k q" for k q
    using c(5) client_holds_nonneg [of c k q] count_ref_nonneg [of x k q]
    by (metis (no_types, lifting) accounts_def add_nonneg_nonneg order_trans)
  show ?thesis using c(1-4) assms(2)
    by (auto simp: connect_def u_def [symmetric] c_def [symmetric] ask_def Let_def client_net_def client_ok_def
        client_holds_def binds_def accounts_step exact_def split: if_splits intro!: accounts_weaken [OF c(5)])
      (metis option.distinct(1))
qed

lemma sendToServer_net: "client_net E tight C x s \<Longrightarrow> client_net E tight C x (sendToServer E C m s)"
  by (simp add: sendToServer_def ask_def Let_def client_net_quiet)

end

text \<open>What \<open>onMessage\<close> must leave alone: the members of the client, and the references to the objects
  of GIO.\<close>

locale client_hook = client_object C for C :: "'a world_scheme client_class" +
  fixes E :: env
  assumes message_part: "get_client C (Client_onMessage C m s) = get_client C s"
    and message_balance: "net_balance E (trace (Client_onMessage C m s)) k p = net_balance E (trace s) k p"
    and message_lawful: "net_lawful E (trace s) \<Longrightarrow> net_lawful E (trace (Client_onMessage C m s))"
begin

lemma onMessage_net: "client_net E tight C x s \<Longrightarrow> client_net E tight C x (Client_onMessage C m s)"
  by (simp add: client_net_def Let_def message_part message_lawful accounts_def message_balance)

lemma incomming_net:
  assumes "client_net E tight C (K_socket, None) s" and "mReceiveSocket (get_client C s) = Some p"
  shows "client_net E tight C (K_socket, None) (snd (incomming E C (Some p) s))"
proof -
  let ?x = "(K_socket, Some p)"
  define t where "t = emit (Gio (Socket_receive (Some p) 1024)) (emit (Gio (Socket_ref (Some p))) s)"
  define u where "u = (case g_socket_receive E (trace t) of
      None \<Rightarrow> disconnect C (NSVR_LOG ''Unable to receive socket data'' t)
    | Some bytes \<Rightarrow>
        if bytes = [] then log_error False ''Receiver Peer connection closed by sender Peer'' t
        else if isConnected C t then
          (case buffer_text 1024 bytes of
             None \<Rightarrow> emit (Fault ''receive buffer without a terminator'') t
           | Some text \<Rightarrow> Client_onMessage C text t)
        else NSVR_LOG ''Peer received a message but it is disconnected.'' t)"
  have r: "client_net E tight C ?x (emit (Gio (Socket_ref (Some p))) s)"
    by (rule client_net_step [OF assms(1)]) (simp_all add: client_net_owned(1) [OF assms])
  have t: "client_net E tight C ?x t" unfolding t_def
    by (rule client_net_quiet [OF r]) (use client_net_owned(5) [OF r, of K_socket p] in simp_all)
  have e: "client_net E tight C ?x (emit (Fault m) t)" "client_net E tight C ?x (NSVR_LOG m t)" for m
    by (rule client_net_quiet [OF t]; simp)+
  have u: "client_net E tight C ?x u" unfolding u_def log_error_def
    by (auto split: option.split intro!: disconnect_net onMessage_net t e simp del: emit_simps)
  have "client_net E tight C (K_socket, None) (emit (Gio (Socket_unref (Some p))) u)"
    by (rule client_net_step [OF u]) (use client_net_owned(5) [OF u, of K_socket p] in simp_all)
  moreover have "snd (incomming E C (Some p) s) = emit (Gio (Socket_unref (Some p))) u"
    unfolding incomming_def u_def t_def
    by (simp add: ask_def Let_def split: option.split)
  ultimately show ?thesis by simp
qed

lemma iterate_loop_net:
  "client_net E tight C (K_socket, None) s \<Longrightarrow> client_net E tight C (K_socket, None) (Client_iterate_loop n E C s)"
proof (induction n arbitrary: s)
  case (Suc n)
  let ?I = "client_net E tight C (K_socket, None)"
  define ctx where "ctx = mContext (get_client C s)"
  define a where "a = emit (Gio (Context_pending ctx)) s"
  define b where "b = emit (Gio (Context_iteration ctx)) a"
  have needs: "list_all (net_owned E (trace t)) (net_needs (Gio (Context_pending ctx)))"
    "list_all (net_owned E (trace t)) (net_needs (Gio (Context_iteration ctx)))"
    if "?I t" "get_client C t = get_client C s" for t
    using client_net_owned(3) [OF that(1)] that(2) by (cases ctx; simp add: ctx_def)+
  have a: "?I a" unfolding a_def using needs [OF Suc.prems] by (intro client_net_quiet Suc.prems) simp_all
  have b: "?I b" unfolding b_def using needs [OF a] by (intro client_net_quiet a) (simp_all add: a_def)
  have loop: "Client_iterate_loop (Suc n) E C s =
    (if \<not> g_main_context_pending E (trace a) then a
     else Client_iterate_loop n E C
       (if g_main_context_iteration E (trace b) \<and> ctx \<noteq> None
        then snd (incomming E C (mReceiveSocket (get_client C b)) b) else b))"
    by (cases ctx) (simp_all add: ask_def Let_def a_def b_def ctx_def)
  have "?I (snd (incomming E C (mReceiveSocket (get_client C b)) b))" if "ctx \<noteq> None"
  proof -
    have "mReceiveSocket (get_client C b) \<noteq> None"
      using that Suc.prems by (auto simp: ctx_def a_def b_def client_net_def client_ok_def Let_def split: if_splits)
    then show ?thesis using incomming_net [OF b] by auto
  qed
  then show ?case unfolding loop using a b Suc.IH by simp
qed (simp add: client_net_quiet)

lemma iterate_net: "client_net E tight C (K_socket, None) s \<Longrightarrow> client_net E tight C (K_socket, None) (Client_iterate E C s)"
  by (simp add: Client_iterate_def iterate_loop_net)

end

section \<open>The server\<close>

definition endpoint_holds :: "endpoint \<Rightarrow> net_kind \<Rightarrow> nat \<Rightarrow> int" where
  "endpoint_holds ep k p = count_ref (K_socket, mEndpointSocket ep) k p + count_ref (K_address, mEndpointAddress ep) k p"

definition endpoints_hold :: "(string \<times> endpoint) list \<Rightarrow> net_kind \<Rightarrow> nat \<Rightarrow> int" where
  "endpoints_hold eps k p = (\<Sum>(ip, ep) \<leftarrow> eps. endpoint_holds ep k p)"

definition server_holds :: "server \<Rightarrow> net_kind \<Rightarrow> nat \<Rightarrow> int" where
  "server_holds c k p = endpoints_hold (mEndpoints c) k p + count_ref (K_service, mSocketService c) k p"

text \<open>Everything but the services is accounted for exactly: no call gives a service back.\<close>

definition counted :: "net_kind \<Rightarrow> bool" where
  "counted k \<longleftrightarrow> k \<noteq> K_service"

definition server_net_ok :: "env \<Rightarrow> 'a world_scheme server_class \<Rightarrow> 'a world_scheme \<Rightarrow> bool" where
  "server_net_ok E C s \<longleftrightarrow>
     (let c = get_server C s in
      distinct (map fst (mEndpoints c)) \<and> net_lawful E (trace s) \<and> accounts E counted (trace s) (server_holds c))"

lemma endpoint_holds_nonneg: "0 \<le> endpoint_holds ep k p"
  by (simp add: endpoint_holds_def)

lemma endpoints_hold_nonneg: "0 \<le> endpoints_hold eps k p"
  by (induction eps) (auto simp: endpoints_hold_def endpoint_holds_nonneg split: prod.split)

lemma server_holds_nonneg: "0 \<le> server_holds c k p"
  by (simp add: server_holds_def endpoints_hold_nonneg)

lemma endpoint_holds_le: "(ip, ep) \<in> set eps \<Longrightarrow> endpoint_holds ep k p \<le> endpoints_hold eps k p"
proof (induction eps)
  case (Cons e eps)
  then show ?case
    using endpoints_hold_nonneg [of eps k p] endpoint_holds_nonneg [of "snd e" k p]
    by (auto simp: endpoints_hold_def split: prod.splits)
qed simp

lemma update_new: "ip \<notin> fst ` set eps \<Longrightarrow> AList.update ip ep eps = eps @ [(ip, ep)]"
  by (induction eps) auto

context server_object
begin

lemma server_net_owned:
  assumes "server_net_ok E C s"
  shows "mSocketService (get_server C s) = Some v \<Longrightarrow> 0 < net_balance E (trace s) K_service v"
    "(ip, ep) \<in> set (mEndpoints (get_server C s)) \<Longrightarrow> mEndpointSocket ep = Some p \<Longrightarrow>
      0 < net_balance E (trace s) K_socket p"
    "(ip, ep) \<in> set (mEndpoints (get_server C s)) \<Longrightarrow> mEndpointAddress ep = Some p \<Longrightarrow>
      0 < net_balance E (trace s) K_address p"
proof -
  have a: "accounts E counted (trace s) (server_holds (get_server C s))"
    using assms by (simp add: server_net_ok_def Let_def)
  show "0 < net_balance E (trace s) K_service v" if "mSocketService (get_server C s) = Some v"
    by (rule accounts_owned [OF a])
      (use that endpoints_hold_nonneg [of "mEndpoints (get_server C s)" K_service v] in \<open>simp add: server_holds_def\<close>)
  have le: "endpoint_holds ep k p \<le> server_holds (get_server C s) k p"
    if "(ip, ep) \<in> set (mEndpoints (get_server C s))" for k
    using endpoint_holds_le [OF that, of k p] by (simp add: server_holds_def add_increasing2)
  show "0 < net_balance E (trace s) K_socket p"
    if "(ip, ep) \<in> set (mEndpoints (get_server C s))" "mEndpointSocket ep = Some p"
    by (rule accounts_owned [OF a])
      (use le [OF that(1), of K_socket] that(2) in \<open>simp add: endpoint_holds_def\<close>)
  show "0 < net_balance E (trace s) K_address p"
    if "(ip, ep) \<in> set (mEndpoints (get_server C s))" "mEndpointAddress ep = Some p"
    by (rule accounts_owned [OF a])
      (use le [OF that(1), of K_address] that(2) in \<open>simp add: endpoint_holds_def\<close>)
qed

lemma server_net_quiet:
  assumes "server_net_ok E C s" and "list_all (net_owned E (trace s)) (net_needs e)"
    and "snd (net_acquires E e (trace s)) = None" and "snd (net_drops e) = None"
  shows "server_net_ok E C (emit e s)"
  using assms
  by (cases "net_acquires E e (trace s)"; cases "net_drops e") (simp add: server_net_ok_def Let_def accounts_step)

lemma isListening_net: "server_net_ok E C s \<Longrightarrow> server_net_ok E C (snd (isListening E C s))"
  using server_net_owned(1) [of E s]
  by (auto simp: isListening_def ask_def server_net_quiet split: option.split)

lemma shutdown_net:
  assumes "server_net_ok E C s"
  shows "server_net_ok E C (shutdown E C s)"
proof (cases "isListening E C s")
  case (Pair b t)
  have t: "server_net_ok E C t" using isListening_net [OF assms] Pair by simp
  show ?thesis
  proof (cases b)
    case False
    then show ?thesis using t by (simp add: shutdown_def Pair)
  next
    case True
    then obtain v where v: "mSocketService (get_server C t) = Some v"
      using isListening_service [of E s t] isListening_get [OF Pair] Pair by auto
    have "accounts E counted (trace t)
        (server_holds ((get_server C t)\<lparr>mSocketService := None, mListenPort := 0\<rparr>))"
      by (rule accounts_weaken [where f = "server_holds (get_server C t)"])
        (use t in \<open>auto simp: server_net_ok_def server_holds_def counted_def Let_def\<close>)
    then show ?thesis using t server_net_owned(1) [OF t v] True
      by (simp add: shutdown_def Pair server_net_ok_def Let_def v accounts_step)
  qed
qed

lemma listen_net:
  assumes "server_net_ok E C s"
  shows "server_net_ok E C (snd (listen E C address port s))"
proof -
  define u where "u = (if fst (isListening E C s) then shutdown E C (snd (isListening E C s))
    else snd (isListening E C s))"
  define c where "c = (get_server C u)\<lparr>srv_mListenAddress := address, mListenPort := port\<rparr>"
  define v where "v = emit (Gio (Address_from_string (c_str address) port)) (put_server C c u)"
  define svc where "svc = g_socket_service_new E (Gio Service_new # trace v)"
  define w where "w = put_server C (c\<lparr>mSocketService := svc\<rparr>) (emit (Gio Service_new) v)"
  have u: "server_net_ok E C u" using shutdown_net isListening_net [OF assms] by (simp add: u_def)
  then have a: "accounts E counted (trace u) (server_holds c)"
    by (simp add: server_net_ok_def Let_def c_def server_holds_def [abs_def])
  have v: "server_net_ok E C v" using u a
    by (simp add: v_def server_net_ok_def Let_def accounts_step c_def)
  have "accounts E counted (trace w) (server_holds (c\<lparr>mSocketService := svc\<rparr>))"
    unfolding w_def trace_put emit_simps accounts_step v_def net_acquires.simps net_drops.simps
      svc_def [symmetric, unfolded v_def trace_put emit_simps]
    by (rule accounts_weaken [OF a]) (auto simp: server_holds_def counted_def)
  then have w: "server_net_ok E C w" using v
    by (simp add: w_def server_net_ok_def Let_def v_def c_def)
  have log: "server_net_ok E C (NSVR_LOG m t)" and scope: "server_net_ok E C (emit (Gio Scoped_address_unref) t)"
    if "server_net_ok E C t" for m t
    by (rule server_net_quiet [OF that]; simp)+
  have call: "server_net_ok E C (emit e t)" if "server_net_ok E C t" "mSocketService (get_server C t) = svc" "svc \<noteq> None"
    "e \<in> {Gio (Listener_add_address svc), Gio (Connect_incoming svc), Gio (Service_start svc)}" for e t
    by (rule server_net_quiet [OF that(1)]) (use that server_net_owned(1) [OF that(1)] in auto)
  have branch: "server_net_ok E C (if b then x else y)"
    if "b \<Longrightarrow> server_net_ok E C x" "\<not> b \<Longrightarrow> server_net_ok E C y" for b x y
    using that by simp
  show ?thesis
    unfolding listen_def leave_scope Let_def split_beta ask_simps u_def [symmetric] if_distrib [of snd] snd_conv
      c_def [symmetric] v_def [symmetric] svc_def [symmetric] w_def [symmetric]
    by (intro branch log scope isListening_net call v w) (simp_all add: w_def)
qed

lemma send_net:
  assumes "server_net_ok E C s" and "(ip, ep) \<in> set (mEndpoints (get_server C s))"
  shows "server_net_ok E C (UdpEndpoint_send E m n ep s)"
  using server_net_owned(2,3) [OF _ assms(2)] assms
  by (auto simp: UdpEndpoint_send_def ask_def Let_def server_net_quiet)

lemma broadcast_net:
  assumes "server_net_ok E C s"
  shows "server_net_ok E C (broadcastToClients E C m s)"
proof -
  define eps where "eps = mEndpoints (get_server C s)"
  have "server_net_ok E C (fold (\<lambda>ip s. case map_of eps ip of None \<Rightarrow> s | Some ep \<Rightarrow> UdpEndpoint_send E m 1 ep s) ips t)"
    if "server_net_ok E C t" "mEndpoints (get_server C t) = eps" for ips t
    using that
  proof (induction ips arbitrary: t)
    case (Cons ip ips)
    show ?case
    proof (cases "map_of eps ip")
      case None
      then show ?thesis using Cons by simp
    next
      case (Some ep)
      then have "(ip, ep) \<in> set (mEndpoints (get_server C t))" using Cons.prems by (simp add: map_of_SomeD)
      then have "server_net_ok E C (UdpEndpoint_send E m 1 ep t)" by (rule send_net [OF Cons.prems(1)])
      from Cons.IH [OF this] show ?thesis using Some Cons.prems(2) by simp
    qed
  qed simp
  then show ?thesis using assms by (simp add: broadcastToClients_def Let_def eps_def)
qed

lemma learn_endpoint_net:
  assumes "server_net_ok E C s"
  shows "server_net_ok E C (learn_endpoint E C ip s)"
proof (cases "map_of (mEndpoints (get_server C s)) ip = None")
  case False
  then show ?thesis using assms by (auto simp: learn_endpoint_def)
next
  case True
  define c where "c = get_server C s"
  have new: "AList.update ip ep (mEndpoints c) = mEndpoints c @ [(ip, ep)]" for ep
    using True by (intro update_new) (simp add: c_def map_of_eq_None_iff)
  have d: "distinct (map fst (mEndpoints c @ [(ip, ep)]))" for ep
    using True assms by (simp add: server_net_ok_def Let_def c_def map_of_eq_None_iff)
  have a: "accounts E counted (trace s) (server_holds c)"
    using assms by (simp add: server_net_ok_def c_def Let_def)
  have nn [simp]: "0 \<le> net_balance E (trace s) k p" for k p
    using a server_holds_nonneg [of c k p] by (meson accounts_def order_trans)
  show ?thesis using True assms d
    by (auto simp: learn_endpoint_def c_def [symmetric] UdpEndpoint_setup_def UdpEndpoint_def ask_def Let_def new
        server_net_ok_def accounts_step server_holds_def endpoints_hold_def endpoint_holds_def
        intro!: accounts_weaken [OF a])
qed

lemma getIp_net: "server_net_ok E C s \<Longrightarrow> server_net_ok E C (snd (getIp E s))"
  by (simp add: getIp_def ask_def Let_def server_net_quiet split: option.split)

end

text \<open>What \<open>onMessage\<close> must leave alone.\<close>

locale server_hook = server_object C for C :: "'a world_scheme server_class" +
  fixes E :: env
  assumes message_part: "get_server C (Server_onMessage C m s) = get_server C s"
    and message_balance: "net_balance E (trace (Server_onMessage C m s)) k p = net_balance E (trace s) k p"
    and message_lawful: "net_lawful E (trace s) \<Longrightarrow> net_lawful E (trace (Server_onMessage C m s))"
begin

lemma onMessage_net: "server_net_ok E C s \<Longrightarrow> server_net_ok E C (Server_onMessage C m s)"
  by (simp add: server_net_ok_def Let_def message_part message_lawful accounts_def message_balance)

lemma incoming_net:
  assumes "server_net_ok E C s"
  shows "server_net_ok E C (Server_incoming E C s)"
proof -
  have q: "server_net_ok E C (emit e t)"
    if "server_net_ok E C t" "e = Gio (Stream_read 16) \<or> e = Gio Get_input_stream \<or> e = Logged m \<or> e = Fault m" for e t m
    by (rule server_net_quiet [OF that(1)]) (use that(2) in auto)
  let ?t = "emit (Gio (Stream_read 16)) (emit (Gio Get_input_stream) s)"
  have t: "server_net_ok E C ?t" "server_net_ok E C (emit (Gio Get_input_stream) s)"
    using q [OF q [OF assms]] q [OF assms] by simp_all
  let ?u = "learn_endpoint E C (fst (getIp E ?t)) (snd (getIp E ?t))"
  have u: "server_net_ok E C ?u" by (intro learn_endpoint_net getIp_net t)
  then have "server_net_ok E C (emit (Fault m) ?u)" "server_net_ok E C (NSVR_LOG m ?t)" for m
    using q t by simp_all
  then show ?thesis using t u
    by (cases "g_input_stream_read E (trace ?t)"; cases "g_io_stream_get_input_stream E (Gio Get_input_stream # trace s)")
      (simp_all add: Server_incoming_def ask_def Let_def split_beta onMessage_net split: option.split)
qed

lemma iterate_net: "server_net_ok E C s \<Longrightarrow> server_net_ok E C (Server_iterate E C s)"
proof -
  have "server_net_ok E C (Server_iterate_loop n E C s)" if "server_net_ok E C s" for n s
    using that
  proof (induction n arbitrary: s)
    case (Suc n)
    let ?a = "emit (Gio (Context_pending None)) s"
    let ?b = "emit (Gio (Context_iteration None)) ?a"
    have a: "server_net_ok E C ?a" by (rule server_net_quiet [OF Suc.prems]) simp_all
    have b: "server_net_ok E C ?b" by (rule server_net_quiet [OF a]) simp_all
    have "Server_iterate_loop (Suc n) E C s =
      (if \<not> g_main_context_pending E (trace ?a) then ?a
       else Server_iterate_loop n E C (if g_main_context_iteration E (trace ?b) then Server_incoming E C ?b else ?b))"
      by (simp add: ask_def Let_def)
    then show ?case using Suc.IH incoming_net a b by simp
  qed (simp add: server_net_quiet)
  then show "server_net_ok E C s \<Longrightarrow> server_net_ok E C (Server_iterate E C s)"
    by (simp add: Server_iterate_def)
qed

end

section \<open>Destroying a server\<close>

text \<open>The destructor of an endpoint gives back what the endpoint holds.\<close>

lemma endpoint_dtor_accounts:
  assumes "accounts E X (trace s) (\<lambda>k p. g k p + endpoint_holds ep k p)" and "net_lawful E (trace s)"
    and "\<And>k p. 0 \<le> g k p"
  shows "accounts E X (trace (UdpEndpoint_dtor ep s)) g \<and> net_lawful E (trace (UdpEndpoint_dtor ep s))"
proof -
  have own: "0 < net_balance E (trace s) k p" if "0 < endpoint_holds ep k p" for k p
    using accounts_owned [OF assms(1), of k p] that assms(3) [of k p] by simp
  have "0 < endpoint_holds ep K_socket p" if "mEndpointSocket ep = Some p" for p
    using that by (simp add: endpoint_holds_def)
  moreover have "0 < endpoint_holds ep K_address p" if "mEndpointAddress ep = Some p" for p
    using that by (simp add: endpoint_holds_def)
  moreover have "accounts E X (trace (UdpEndpoint_dtor ep s)) g"
    by (cases "mEndpointSocket ep"; cases "mEndpointAddress ep";
        simp add: UdpEndpoint_dtor_def Let_def accounts_step;
        rule accounts_eq [OF assms(1)]; simp add: endpoint_holds_def)
  ultimately show ?thesis using own assms(2)
    by (auto simp: UdpEndpoint_dtor_def Let_def)
qed

lemma endpoints_dtor_accounts:
  assumes "set ips \<subseteq> set (map fst eps)" and "\<And>k p. 0 \<le> g k p"
    and "accounts E X (trace s) (\<lambda>k p. g k p + (\<Sum>ip \<leftarrow> ips. endpoint_holds (the (map_of eps ip)) k p))"
    and "net_lawful E (trace s)"
  shows "accounts E X (trace (fold (\<lambda>ip s. case map_of eps ip of None \<Rightarrow> s | Some ep \<Rightarrow> UdpEndpoint_dtor ep s) ips s)) g \<and>
    net_lawful E (trace (fold (\<lambda>ip s. case map_of eps ip of None \<Rightarrow> s | Some ep \<Rightarrow> UdpEndpoint_dtor ep s) ips s))"
  using assms(1,3,4)
proof (induction ips arbitrary: s)
  case (Cons ip ips)
  then obtain ep where ep: "map_of eps ip = Some ep" using weak_map_of_SomeI by fastforce
  let ?g = "\<lambda>k p. g k p + (\<Sum>ip \<leftarrow> ips. endpoint_holds (the (map_of eps ip)) k p)"
  have "0 \<le> ?g k p" for k p
    using assms(2) by (intro add_nonneg_nonneg sum_list_nonneg) (auto simp: endpoint_holds_nonneg)
  moreover have "accounts E X (trace s) (\<lambda>k p. ?g k p + endpoint_holds ep k p)"
    using Cons.prems(2) by (rule accounts_eq) (simp add: ep)
  ultimately have "accounts E X (trace (UdpEndpoint_dtor ep s)) ?g \<and> net_lawful E (trace (UdpEndpoint_dtor ep s))"
    using Cons.prems(3) by (intro endpoint_dtor_accounts)
  then show ?case using Cons.IH [of "UdpEndpoint_dtor ep s"] Cons.prems(1) by (simp add: ep)
qed simp

context server_object
begin

lemma dtor_net:
  assumes "server_net_ok E C s" and "\<And>h xs. mset (unordered E h xs) = mset xs"
  shows "net_lawful E (trace (Server_dtor E C s)) \<and>
    (k \<noteq> K_service \<longrightarrow> net_balance E (trace (Server_dtor E C s)) k p = 0)"
proof -
  define u where "u = (if fst (isListening E C s) then shutdown E C (snd (isListening E C s))
    else snd (isListening E C s))"
  define eps where "eps = mEndpoints (get_server C u)"
  define ips where "ips = unordered E (trace u) (map fst eps)"
  define v where "v = mSocketService (get_server C u)"
  have u: "server_net_ok E C u" using shutdown_net isListening_net [OF assms(1)] by (simp add: u_def)
  then have d: "distinct (map fst eps)" and l: "net_lawful E (trace u)"
    and a: "accounts E counted (trace u) (\<lambda>k p. endpoints_hold eps k p + count_ref (K_service, v) k p)"
    by (simp_all add: server_net_ok_def Let_def eps_def v_def server_holds_def [abs_def])
  have m: "mset ips = mset (map fst eps)" unfolding ips_def by (rule assms(2))
  have "map (\<lambda>ip. endpoint_holds (the (map_of eps ip)) k p) (map fst eps) =
      map (\<lambda>(ip, ep). endpoint_holds ep k p) eps" for k p
    using d by (auto simp: comp_def)
  moreover have "mset (map (\<lambda>ip. endpoint_holds (the (map_of eps ip)) k p) ips) =
      mset (map (\<lambda>ip. endpoint_holds (the (map_of eps ip)) k p) (map fst eps))" for k p
    using m by (simp only: mset_map)
  ultimately have sum: "(\<Sum>ip \<leftarrow> ips. endpoint_holds (the (map_of eps ip)) k p) = endpoints_hold eps k p" for k p
    unfolding endpoints_hold_def by (metis sum_mset_sum_list)
  have "accounts E counted (trace u)
      (\<lambda>k p. count_ref (K_service, v) k p + (\<Sum>ip \<leftarrow> ips. endpoint_holds (the (map_of eps ip)) k p))"
    by (rule accounts_eq [OF a]) (simp add: sum)
  moreover have "set ips \<subseteq> set (map fst eps)" using m mset_eq_setD by blast
  moreover have "Server_dtor E C s =
      fold (\<lambda>ip s. case map_of eps ip of None \<Rightarrow> s | Some ep \<Rightarrow> UdpEndpoint_dtor ep s) ips u"
    by (simp add: Server_dtor_def split_beta Let_def u_def eps_def ips_def)
  ultimately have "accounts E counted (trace (Server_dtor E C s)) (count_ref (K_service, v))
      \<and> net_lawful E (trace (Server_dtor E C s))"
    using endpoints_dtor_accounts [of ips eps "count_ref (K_service, v)" E counted u] l by simp
  then show ?thesis by (auto simp: accounts_def counted_def)
qed

end

end
