(* ===== verification/Packet_Handler.thy ===== *)
theory Packet_Handler
  imports Internal Number_Text Platform "HOL-Library.Multiset"
begin

text \<open>
  The heartbeat packet of \<open>nsvr_packet_handler.hpp/.cpp\<close>: its fields, the text it travels as, and
  the parser the client runs on every datagram.
\<close>

section \<open>The packet\<close>

record packet =
  pkt_time :: double
  pkt_volume :: double
  pkt_mute :: int32
  pkt_state :: int32
  pkt_base :: uint64

text \<open>The member initialisers.\<close>

definition new_packet :: packet where
  "new_packet = \<lparr>pkt_time = 0, pkt_volume = 0, pkt_mute = 0, pkt_state = GST_STATE_NULL,
     pkt_base = GST_CLOCK_TIME_NONE\<rparr>"

section \<open>Writing\<close>

definition serialize :: "packet \<Rightarrow> string" where
  "serialize packet =
     ''s'' @ ''h'' @
     ''|'' @ ''t'' @ show_double (pkt_time packet) @
     ''|'' @ ''v'' @ show_double (pkt_volume packet) @
     ''|'' @ ''m'' @ show_int (sint (pkt_mute packet)) @
     ''|'' @ ''s'' @ show_int (sint (pkt_state packet)) @
     ''|'' @ ''b'' @ show_int (uint (pkt_base packet))"

section \<open>Parsing\<close>

text \<open>One non-empty command: the packet after it and by how much \<open>entities\<close> grows, or the
  exception the standard library threw.\<close>

definition parse_command :: "string \<Rightarrow> packet \<Rightarrow> std_exn + packet \<times> nat" where
  "parse_command command packet =
     (if hd command = CHR ''t'' then
        (case stod (tl command) of Inl e \<Rightarrow> Inl e | Inr d \<Rightarrow> Inr (packet\<lparr>pkt_time := d\<rparr>, 1))
      else if hd command = CHR ''v'' then
        (case stod (tl command) of Inl e \<Rightarrow> Inl e | Inr d \<Rightarrow> Inr (packet\<lparr>pkt_volume := d\<rparr>, 1))
      else if hd command = CHR ''m'' then
        (case stoi (tl command) of Inl e \<Rightarrow> Inl e | Inr i \<Rightarrow> Inr (packet\<lparr>pkt_mute := i\<rparr>, 1))
      else if hd command = CHR ''s'' then
        (case stoi (tl command) of Inl e \<Rightarrow> Inl e | Inr i \<Rightarrow> Inr (packet\<lparr>pkt_state := i\<rparr>, 1))
      else if hd command = CHR ''b'' then
        (case stoull (tl command) of Inl e \<Rightarrow> Inl e | Inr b \<Rightarrow> Inr (packet\<lparr>pkt_base := b\<rparr>, 1))
      else Inr (packet, 0))"

text \<open>The loop over the commands: an exception ends it and is caught with the assignments made
  so far in place.\<close>

fun parse_loop :: "string list \<Rightarrow> packet \<Rightarrow> nat \<Rightarrow> packet \<times> nat" where
  "parse_loop [] packet entities = (packet, entities)"
| "parse_loop (command # commands) packet entities =
     (if command = [] then parse_loop commands packet entities
      else (case parse_command command packet of
              Inl e \<Rightarrow> (packet, entities)
            | Inr (packet', k) \<Rightarrow> parse_loop commands packet' (entities + k)))"

definition PACKET_ATT_COUNT :: nat where
  "PACKET_ATT_COUNT = 5"

definition parse :: "string \<Rightarrow> packet \<Rightarrow> bool \<times> packet" where
  "parse buffer packet =
     (if buffer = [] \<or> buffer ! 0 = CHR ''c'' then (False, packet)
      else
        (let (packet', entities) =
           (if 3 < length buffer \<and> buffer ! 0 = CHR ''s'' then
              (if buffer ! 1 = CHR ''h'' then
                 parse_loop (explode (drop 3 buffer) CHR ''|'') packet 0
               else (packet, 0))
            else (packet, 0))
         in (entities = PACKET_ATT_COUNT, packet')))"

section \<open>What the parser computes\<close>

text \<open>
  A reference definition without the loop: a buffer is framed when it is longer than the three
  characters of the header and starts with \<open>sh\<close>; a command is known when its first character is
  one of the five attributes, and readable when its value converts. The parser applies the known
  commands up to the first unreadable one, and accepts when there are five of them.
\<close>

definition framed :: "string \<Rightarrow> bool" where
  "framed buffer \<longleftrightarrow> 3 < length buffer \<and> buffer ! 0 = CHR ''s'' \<and> buffer ! 1 = CHR ''h''"

definition known :: "string \<Rightarrow> bool" where
  "known command \<longleftrightarrow> command \<noteq> [] \<and> hd command \<in> set ''tvmsb''"

definition readable :: "string \<Rightarrow> bool" where
  "readable command =
     (case parse_command command new_packet of Inl _ \<Rightarrow> False | Inr _ \<Rightarrow> True)"

definition apply_command :: "string \<Rightarrow> packet \<Rightarrow> packet" where
  "apply_command command packet =
     (case parse_command command packet of Inl _ \<Rightarrow> packet | Inr (packet', _) \<Rightarrow> packet')"

definition accepted_commands :: "string \<Rightarrow> string list" where
  "accepted_commands buffer = takeWhile readable (filter known (explode (drop 3 buffer) CHR ''|''))"

lemma parse_command_unknown: "command \<noteq> [] \<Longrightarrow> \<not> known command \<Longrightarrow> parse_command command p = Inr (p, 0)"
  by (simp add: known_def parse_command_def)

lemma parse_command_readable:
  "known command \<Longrightarrow> readable command \<Longrightarrow> parse_command command p = Inr (apply_command command p, 1)"
  by (simp add: known_def readable_def apply_command_def parse_command_def split: if_splits sum.splits)

lemma parse_command_unreadable:
  "\<not> readable command \<Longrightarrow> \<exists>e. parse_command command p = Inl e"
  by (simp add: readable_def parse_command_def split: if_splits sum.splits)

lemma parse_loop_spec:
  "parse_loop cs p n =
     (let ks = takeWhile readable (filter known cs) in (fold apply_command ks p, n + length ks))"
proof (induction cs arbitrary: p n)
  case (Cons c cs)
  consider "c = []" | "c \<noteq> []" "\<not> known c" | "known c" "readable c" | "known c" "\<not> readable c"
    by (auto simp: known_def)
  then show ?case
  proof cases
    case 1
    then show ?thesis using Cons by (simp add: known_def)
  next
    case 2
    then show ?thesis using Cons parse_command_unknown by simp
  next
    case 3
    then show ?thesis using Cons parse_command_readable by (simp add: known_def Let_def)
  next
    case 4
    then show ?thesis using parse_command_unreadable [of c p] by (auto simp: known_def)
  qed
qed simp

lemma parse_spec:
  "parse buffer packet =
     (if framed buffer then
        (length (accepted_commands buffer) = 5, fold apply_command (accepted_commands buffer) packet)
      else (False, packet))"
  by (simp add: parse_def framed_def accepted_commands_def parse_loop_spec PACKET_ATT_COUNT_def Let_def)

section \<open>Reading a written packet\<close>

definition quantise_packet :: "packet \<Rightarrow> packet" where
  "quantise_packet p =
     p\<lparr>pkt_time := quantise (pkt_time p), pkt_volume := quantise (pkt_volume p)\<rparr>"

definition printable_packet :: "packet \<Rightarrow> bool" where
  "printable_packet p \<longleftrightarrow> printable (pkt_time p) \<and> printable (pkt_volume p)"

text \<open>A packet of a player at the start of its media, at full volume.\<close>

definition demo_packet :: packet where
  "demo_packet = \<lparr>pkt_time = 0, pkt_volume = 1, pkt_mute = 0, pkt_state = GST_STATE_PLAYING,
     pkt_base = 1000000000\<rparr>"

lemma quantise_one: "quantise 1 = 1"
  by (simp add: one_double_def dec6_def sci6_def ilog_def ndigits.simps round_half_even_def
      round_to_def round_exp_def to_double_def DBL_OVERFLOW_def Let_def)

lemma demo_printable: "printable_packet demo_packet" "quantise_packet demo_packet = demo_packet"
  using quantise_one
  by (simp_all add: printable_packet_def quantise_packet_def demo_packet_def zero_double_def
      one_double_def DBL_MIN_def DBL_OVERFLOW_def)

text \<open>The five commands of a serialized packet.\<close>

definition commands_of :: "packet \<Rightarrow> string list" where
  "commands_of p =
     [CHR ''t'' # show_double (pkt_time p), CHR ''v'' # show_double (pkt_volume p),
      CHR ''m'' # show_int (sint (pkt_mute p)), CHR ''s'' # show_int (sint (pkt_state p)),
      CHR ''b'' # show_int (uint (pkt_base p))]"

lemma serialize_implode: "serialize p = ''sh|'' @ implode (commands_of p) ''|''"
  by (simp add: serialize_def commands_of_def implode_def)

lemma commands_of_no_separator:
  "printable_packet p \<Longrightarrow> c \<in> set (commands_of p) \<Longrightarrow> CHR ''|'' \<notin> set c"
  using double_text.no_separator int_text.no_separator uint64_text.no_separator
  by (auto simp: commands_of_def printable_packet_def)

lemma parse_command_written:
  assumes "printable_packet p"
  shows "parse_command (CHR ''t'' # show_double (pkt_time p)) q = Inr (q\<lparr>pkt_time := quantise (pkt_time p)\<rparr>, 1)"
    and "parse_command (CHR ''v'' # show_double (pkt_volume p)) q = Inr (q\<lparr>pkt_volume := quantise (pkt_volume p)\<rparr>, 1)"
    and "parse_command (CHR ''m'' # show_int (sint (pkt_mute p))) q = Inr (q\<lparr>pkt_mute := pkt_mute p\<rparr>, 1)"
    and "parse_command (CHR ''s'' # show_int (sint (pkt_state p))) q = Inr (q\<lparr>pkt_state := pkt_state p\<rparr>, 1)"
    and "parse_command (CHR ''b'' # show_int (uint (pkt_base p))) q = Inr (q\<lparr>pkt_base := pkt_base p\<rparr>, 1)"
  using assms
  by (simp_all add: parse_command_def printable_packet_def double_text.rd_wr int_text.rd_wr uint64_text.rd_wr)

lemma drop_header: "drop 3 (''sh|'' @ s) = s"
  by simp

lemma explode_commands_of: "printable_packet p \<Longrightarrow> explode (drop 3 (serialize p)) CHR ''|'' = commands_of p"
  unfolding serialize_implode drop_header
  by (rule explode_implode_aux) (auto simp: commands_of_def dest: commands_of_no_separator [unfolded commands_of_def])

lemma parse_written:
  assumes "printable_packet p"
  shows "parse (serialize p) q = (True, quantise_packet p)"
proof -
  have "parse_loop (commands_of p) q 0 = (quantise_packet p, 5)"
    using parse_command_written [OF assms] by (simp add: commands_of_def quantise_packet_def)
  moreover have "3 < length (serialize p)" "serialize p ! 0 = CHR ''s''" "serialize p ! 1 = CHR ''h''"
    "serialize p \<noteq> []"
    by (simp_all add: serialize_def)
  ultimately show ?thesis
    using explode_commands_of [OF assms] by (simp add: parse_def PACKET_ATT_COUNT_def)
qed

lemma length_serialize:
  assumes "printable_packet p"
  shows "length (serialize p) \<le> 96"
proof -
  have i: "length (show_int (sint i)) \<le> 11" for i :: int32
    using length_show_int [of "sint i" 9] sint_greater_eq [of i] sint_less [of i] by simp
  have "length (show_double (pkt_time p)) \<le> 19" "length (show_double (pkt_volume p)) \<le> 19"
    using assms by (simp_all add: printable_packet_def length_show_double)
  moreover have "length (show_int (uint (pkt_base p))) \<le> 21"
    using length_show_int [of "uint (pkt_base p)" 19] unsigned_less [of "pkt_base p", where 'a = int] by simp
  ultimately show ?thesis using i [of "pkt_mute p"] i [of "pkt_state p"] by (simp add: serialize_def)
qed

lemma NUL_serialize:
  assumes "printable_packet p"
  shows "NUL \<notin> set (serialize p)"
  using assms double_text.no_nul int_text.no_nul uint64_text.no_nul
  by (simp add: serialize_def printable_packet_def)

text \<open>C1: a heartbeat survives the wire. Whatever packet object the receiver parses into, parsing
  the text of a packet succeeds and yields the mute flag, the state and the base time exactly,
  and the time and the volume rounded to six significant digits, the precision of the stream.\<close>

theorem parse_serialize:
  assumes "printable_packet p"
  shows "parse (serialize p) q = (True, quantise_packet p)"
  using assms by (rule parse_written)

theorem parse_serialize_witness:
  "parse (serialize demo_packet) new_packet = (True, quantise_packet demo_packet)"
  by (rule parse_serialize [OF demo_printable(1)])

text \<open>C37: the price of the text. The time and the volume a client reads from a heartbeat deviate from
  the server's by at most a hundred-thousandth of their value.\<close>

theorem heartbeat_precision:
  assumes "printable_packet p" and "parse (serialize p) q = (True, p')"
    and "pkt_time p = Fin s a" and "pkt_volume p = Fin u v"
  shows "\<exists>b w. pkt_time p' = Fin s b \<and> \<bar>b - a\<bar> \<le> \<bar>a\<bar> / 100000 \<and>
    pkt_volume p' = Fin u w \<and> \<bar>w - v\<bar> \<le> \<bar>v\<bar> / 100000"
proof -
  have "p' = quantise_packet p" using assms(2) parse_written [OF assms(1)] by simp
  moreover have "printable (Fin s a)" "printable (Fin u v)"
    using assms(1,3,4) by (simp_all add: printable_packet_def)
  ultimately show ?thesis
    using quantise_error [of s a] quantise_error [of u v] assms(3,4)
    by (auto simp: quantise_packet_def)
qed

theorem heartbeat_precision_witness:
  "\<exists>b w. pkt_time (quantise_packet demo_packet) = Fin False b \<and> \<bar>b - 0\<bar> \<le> \<bar>0\<bar> / 100000 \<and>
    pkt_volume (quantise_packet demo_packet) = Fin False w \<and> \<bar>w - 1\<bar> \<le> \<bar>1\<bar> / (100000 :: rat)"
  by (rule heartbeat_precision [OF demo_printable(1) parse_written [OF demo_printable(1)]])
    (simp_all add: demo_packet_def zero_double_def one_double_def)

text \<open>Relaying does not drift. A packet that was written and read once is written and read
  again unchanged, so a client and a server that exchange their state repeatedly settle.\<close>

lemma parse_serialize_again:
  assumes "printable_packet p" and "printable_packet (quantise_packet p)"
    and "parse (serialize p) q = (True, p')"
  shows "parse (serialize p') q' = (True, p')"
proof -
  have p': "p' = quantise_packet p" using assms(3) parse_written [OF assms(1)] by simp
  have "quantise_packet (quantise_packet p) = quantise_packet p"
    using assms(1) by (simp add: quantise_packet_def printable_packet_def quantise_idem)
  then show ?thesis using parse_written [OF assms(2)] by (simp add: p')
qed

text \<open>C14: the parser is its reference definition. It accepts exactly the framed buffers in which
  five known attributes come before the first attribute whose value does not convert, whatever
  unknown or empty commands stand between them, and it applies those attributes in order; any
  other framed buffer is rejected with the attributes before the error applied, and an unframed
  one leaves the packet alone.\<close>

theorem parse_reference:
  "parse buffer packet =
     (if framed buffer then
        (length (accepted_commands buffer) = 5, fold apply_command (accepted_commands buffer) packet)
      else (False, packet))"
  by (rule parse_spec)

text \<open>Each command updates one field, whatever the packet.\<close>

definition stored :: "std_exn + 'a \<Rightarrow> 'a \<Rightarrow> 'a" where
  "stored r old = (case r of Inl _ \<Rightarrow> old | Inr d \<Rightarrow> d)"

lemma apply_command_simps:
  "hd c = CHR ''t'' \<Longrightarrow> apply_command c p = pkt_time_update (stored (stod (tl c))) p"
  "hd c = CHR ''v'' \<Longrightarrow> apply_command c p = pkt_volume_update (stored (stod (tl c))) p"
  "hd c = CHR ''m'' \<Longrightarrow> apply_command c p = pkt_mute_update (stored (stoi (tl c))) p"
  "hd c = CHR ''s'' \<Longrightarrow> apply_command c p = pkt_state_update (stored (stoi (tl c))) p"
  "hd c = CHR ''b'' \<Longrightarrow> apply_command c p = pkt_base_update (stored (stoull (tl c))) p"
  "hd c \<notin> set ''tvmsb'' \<Longrightarrow> apply_command c p = p"
  by (simp_all add: apply_command_def parse_command_def stored_def split: sum.split)

lemma apply_command_commute:
  assumes "hd c \<noteq> hd d"
  shows "apply_command c (apply_command d p) = apply_command d (apply_command c p)"
  using assms by (cases "hd c \<in> set ''tvmsb''"; cases "hd d \<in> set ''tvmsb''") (auto simp: apply_command_simps)

text \<open>The order of the attributes does not matter. Rearranging commands of pairwise different
  attributes whose values convert changes neither the verdict nor the packet.\<close>

lemma parse_permuted:
  assumes "mset ds = mset cs" and "cs \<noteq> []" and "distinct (map hd cs)"
    and "\<forall>c \<in> set cs. known c \<and> readable c \<and> CHR ''|'' \<notin> set c"
  shows "parse (''sh|'' @ implode ds ''|'') p = parse (''sh|'' @ implode cs ''|'') p"
proof -
  have set: "set ds = set cs" using assms(1) by (rule mset_eq_setD)
  have all: "parse (''sh|'' @ implode es ''|'') p = (length es = 5, fold apply_command es p)"
    if "set es = set cs" for es
  proof -
    have ne: "es \<noteq> []" using that assms(2) by auto
    have ok: "\<forall>c \<in> set es. known c \<and> readable c \<and> CHR ''|'' \<notin> set c" using that assms(4) by simp
    have e: "explode (implode es ''|'') CHR ''|'' = es"
      using ne ok by (intro explode_implode_aux) auto
    then have "implode es ''|'' \<noteq> []" using ok ne by (auto simp: explode_def known_def)
    then have "framed (''sh|'' @ implode es ''|'')" by (simp add: framed_def)
    moreover have "accepted_commands (''sh|'' @ implode es ''|'') = es"
      using ok e by (simp add: accepted_commands_def filter_id_conv takeWhile_all)
    ultimately show ?thesis by (simp add: parse_spec)
  qed
  have "fold apply_command cs = fold apply_command ds"
  proof (rule fold_multiset_equiv [OF _ assms(1) [symmetric]])
    fix c d assume "c \<in> set cs" "d \<in> set cs"
    then show "apply_command c \<circ> apply_command d = apply_command d \<circ> apply_command c"
      using assms(3) apply_command_commute [of c d]
      by (cases "c = d") (auto simp: fun_eq_iff distinct_map inj_on_def)
  qed
  moreover have "length ds = length cs" using assms(1) by (rule mset_eq_length)
  ultimately show ?thesis using all [of cs] all [of ds] set by simp
qed

text \<open>C30: a heartbeat fits. The text of any printable packet is shorter than a hundred characters and has no
  zero byte, so the client's receive buffer of 1024 bytes holds it whole, terminator included, and
  \<open>onMessage\<close> sees all of it.\<close>

theorem heartbeat_fits:
  assumes "printable_packet p"
  shows "length (serialize p) < 100 \<and> buffer_text 1024 (serialize p) = Some (serialize p)"
  using length_serialize [OF assms] NUL_serialize [OF assms] by (simp add: buffer_text_short)

theorem heartbeat_fits_witness:
  "length (serialize demo_packet) < 100 \<and> buffer_text 1024 (serialize demo_packet) = Some (serialize demo_packet)"
  by (rule heartbeat_fits [OF demo_printable(1)])

section \<open>Whatever arrives\<close>

definition wf_packet :: "packet \<Rightarrow> bool" where
  "wf_packet p \<longleftrightarrow> wf_double (pkt_time p) \<and> wf_double (pkt_volume p)"

lemma stod_wf: "stod s = Inr d \<Longrightarrow> wf_double d"
  by (auto simp: stod_def Let_def split: if_splits option.splits prod.splits)

lemma parse_command_wf: "wf_packet p \<Longrightarrow> parse_command c p = Inr (p', k) \<Longrightarrow> wf_packet p'"
  by (auto simp: parse_command_def wf_packet_def split: if_splits sum.splits dest: stod_wf)

lemma parse_loop_wf: "wf_packet p \<Longrightarrow> wf_packet (fst (parse_loop cs p n))"
proof (induction cs p n rule: parse_loop.induct)
  case (2 c cs p n)
  then show ?case by (auto split: sum.split dest: parse_command_wf)
qed simp



end
