(* ===== verification/Player_Client.thy ===== *)
theory Player_Client
  imports Player_Invariants Client Packet_Handler
begin

text \<open>
  The client player of \<open>nsvr_player_client.hpp/.cpp\<close>: a \<open>Player\<close> and a \<open>Client\<close> that follows the
  heartbeats of a server. It overrides five virtual methods; \<open>player_client_vtable\<close> and
  \<open>player_client_class\<close> are its virtual tables.
\<close>

record player_client = player +
  pc_client :: client
  pc_mNetClock :: ptr
  mBaseTime :: uint64

text \<open>The client part for the methods that do not depend on \<open>onMessage\<close>.\<close>

definition pc_part :: "player_client client_class" where
  "pc_part = \<lparr>get_client = pc_client, put_client = (\<lambda>c s. s\<lparr>pc_client := c\<rparr>),
     Client_onMessage = (\<lambda>_ s. s)\<rparr>"

section \<open>Methods\<close>

definition client_clearClock :: "player_client \<Rightarrow> player_client" where
  "client_clearClock s =
     (if mPipeline s = None then s
      else
        (let s = (if pc_mNetClock s \<noteq> None
                  then (emit (Clk (Clock_unref (pc_mNetClock s))) s)\<lparr>pc_mNetClock := None\<rparr> else s)
         in emit (Clk (Set_base_time (mPipeline s) GST_CLOCK_TIME_NONE)) s))"

text \<open>The port is a \<open>short\<close> widened to the \<open>gint\<close> GStreamer takes.\<close>

definition client_setupClock :: "env \<Rightarrow> player_client \<Rightarrow> player_client" where
  "client_setupClock E s =
     (if mPipeline s = None then s
      else if mBaseTime s = 0 then s
      else
        (let s = client_clearClock s;
             (clock, s) = ask (gst_net_client_clock_new E)
               (Clk (Net_client_clock_new (c_str (getServerAddress pc_part s))
                  (scast (getClockPort (getServerPort pc_part s))) (mBaseTime s))) s;
             s = (if clock \<noteq> None then
                    (let s = s\<lparr>pc_mNetClock := clock\<rparr>;
                         s = emit (Clk (Clock_set_timeout clock)) s;
                         s = emit (Clk (Use_clock (mPipeline s) clock)) s;
                         s = emit (Clk (Set_start_time (mPipeline s))) s
                     in emit (Clk (Set_base_time (mPipeline s) (mBaseTime s))) s)
                  else s)
         in s\<lparr>mBaseTime := 0\<rparr>))"

text \<open>\<open>onMessage\<close>, one statement at a time. The hooks that \<open>setState\<close> runs, \<open>onBeforeSetState\<close> and
  \<open>onStateChanged\<close>, are the ones of \<open>Player\<close>, so its vtable serves; see \<open>client_setState\<close> below.\<close>

definition follow_mute :: "env \<Rightarrow> packet \<Rightarrow> player_client \<Rightarrow> player_client" where
  "follow_mute E packet s =
     (if getMute s \<noteq> (pkt_mute packet \<noteq> 0) then setMute E (pkt_mute packet \<noteq> 0) s else s)"

definition follow_volume :: "env \<Rightarrow> packet \<Rightarrow> player_client \<Rightarrow> player_client" where
  "follow_volume E packet s =
     (let (vol, s) = getVolume E s
      in if \<not> feq vol (pkt_volume packet) then setVolume (pkt_volume packet) s else s)"

definition follow_base :: "env \<Rightarrow> packet \<Rightarrow> player_client \<Rightarrow> player_client" where
  "follow_base E packet s =
     (if mPipeline s = None then s\<lparr>mBaseTime := pkt_base packet\<rparr>
      else
        (let (base, s) = ask (gst_element_get_base_time E) (Clk (Get_base_time (mPipeline s))) s
         in if base \<noteq> pkt_base packet then s\<lparr>mBaseTime := pkt_base packet\<rparr> else s))"

definition follow_state :: "env \<Rightarrow> packet \<Rightarrow> player_client \<Rightarrow> player_client" where
  "follow_state E packet s =
     (if mBaseTime s = 0 then
        (let (st, s) = queryState E s
         in if st \<noteq> pkt_state packet then setState E (player_vtable E) (pkt_state packet) s else s)
      else s)"

definition client_onMessage :: "env \<Rightarrow> string \<Rightarrow> player_client \<Rightarrow> player_client" where
  "client_onMessage E message s =
     (if message = [] then s
      else
        (let (ok, packet) = parse message new_packet in
         if ok then
           follow_state E packet (follow_base E packet (follow_volume E packet (follow_mute E packet s)))
         else s))"

definition player_client_class :: "env \<Rightarrow> player_client client_class" where
  "player_client_class E = pc_part\<lparr>Client_onMessage := client_onMessage E\<rparr>"

definition client_onBeforeUpdate :: "env \<Rightarrow> player_client \<Rightarrow> player_client" where
  "client_onBeforeUpdate E s =
     (if mPipeline s = None then s
      else
        (let s = Client_iterate E (player_client_class E) s in
         if mBaseTime s = 0 then s
         else if getState s \<noteq> GST_STATE_READY then
           (let (r, s) = ask (gst_element_set_state E) (Gst (Set_state (mPipeline s) GST_STATE_READY)) s
            in if r = Change_failure
               then NSVR_LOG ''Client failed to put pipeline into READY state for a pending base.'' s else s)
         else client_setupClock E (NSVR_LOG ''Client receieved a new base time.'' s)))"

definition client_onBeforeOpen :: "env \<Rightarrow> player_client \<Rightarrow> player_client" where
  "client_onBeforeOpen E s = sendToServer E (player_client_class E) ''nsvr'' s"

definition client_onBeforeClose :: "player_client \<Rightarrow> player_client" where
  "client_onBeforeClose s = client_clearClock s"

definition player_client_vtable :: "env \<Rightarrow> player_client vtable" where
  "player_client_vtable E =
     (player_vtable E)\<lparr>onBeforeOpen := client_onBeforeOpen E, onBeforeClose := client_onBeforeClose,
       onBeforeUpdate := client_onBeforeUpdate E, setupClock := client_setupClock E\<rparr>"

text \<open>The constructor: the base classes first, then the members, then the body. In the destructors
  the vtable is the base class's by the time \<open>close\<close> runs.\<close>

definition PlayerClient_ctor :: "env \<Rightarrow> string \<Rightarrow> int16 \<Rightarrow> player_client \<Rightarrow> player_client" where
  "PlayerClient_ctor E address port s =
     (let s = Player_ctor E s;
          s = s\<lparr>pc_client := new_client, mBaseTime := 0, pc_mNetClock := None\<rparr>;
          (ok, s) = connect E (player_client_class E) address port s
      in if ok then sendToServer E (player_client_class E) ''nsvr'' s
         else NSVR_LOG ''Client was unable to connect to server at construction.'' s)"

definition PlayerClient_dtor :: "env \<Rightarrow> player_client \<Rightarrow> player_client" where
  "PlayerClient_dtor E s = Player_dtor E (Client_dtor (player_client_class E) s)"

lemma emit_player_client_simps [simp]:
  "pc_client (emit e s) = pc_client s" "pc_mNetClock (emit e s) = pc_mNetClock s"
  "mBaseTime (emit e s) = mBaseTime s"
  by (simp_all add: emit_def)

lemma pc_class_simps [simp]:
  "get_client (player_client_class E) = pc_client" "get_client pc_part = pc_client"
  "put_client (player_client_class E) c s = s\<lparr>pc_client := c\<rparr>"
  "Client_onMessage (player_client_class E) = client_onMessage E"
  by (simp_all add: player_client_class_def pc_part_def)

text \<open>\<open>setState\<close> runs the same hooks through either vtable.\<close>

lemma client_setState: "setState E (player_client_vtable E) = setState E (player_vtable E)"
  by (intro ext) (simp add: setState_def player_client_vtable_def Let_def split_beta)

interpretation pc_client: client_object "player_client_class E" for E
  by unfold_locales (simp_all add: emit_def)

section \<open>The client player keeps the invariants of the player\<close>

text \<open>What the effects keep, and what ignores the members of the client player, a client player
  keeps.\<close>

locale client_members = player_effects E I
  for E :: env and I :: "player_client \<Rightarrow> bool" +
  assumes keep_clear: "I s \<Longrightarrow> p = pc_mNetClock s \<Longrightarrow> p \<noteq> None \<Longrightarrow>
      I ((emit (Clk (Clock_unref p)) s)\<lparr>pc_mNetClock := None\<rparr>)"
    and keep_clock: "I s \<Longrightarrow> pc_mNetClock s = None \<Longrightarrow> e = Clk (Net_client_clock_new a n b) \<Longrightarrow>
      I ((emit e s)\<lparr>pc_mNetClock := gst_net_client_clock_new E (e # trace s)\<rparr>)"
    and keep_base: "I s \<Longrightarrow> I (s\<lparr>mBaseTime := b\<rparr>)"
begin

lemma clearClock_keeps: "I s \<Longrightarrow> I (client_clearClock s)"
  by (auto simp: client_clearClock_def Let_def intro!: keep_quiet keep_clear)

lemma setupClock_keeps:
  assumes "I s"
  shows "I (client_setupClock E s)"
proof (cases "mPipeline s = None \<or> mBaseTime s = 0")
  case True
  then show ?thesis using assms by (auto simp: client_setupClock_def)
next
  case False
  then obtain p where p: "mPipeline s = Some p" "mBaseTime s \<noteq> 0" by auto
  define t where "t = client_clearClock s"
  define e where "e = Clk (Net_client_clock_new (c_str (getServerAddress pc_part t))
    (scast (getClockPort (getServerPort pc_part t))) (mBaseTime t))"
  define clock where "clock = gst_net_client_clock_new E (e # trace t)"
  define u where "u = (emit e t)\<lparr>pc_mNetClock := clock\<rparr>"
  have none: "pc_mNetClock t = None"
    using p by (simp add: t_def client_clearClock_def Let_def)
  have u: "I u" unfolding u_def clock_def
    by (rule keep_clock [OF _ none e_def]) (simp add: t_def clearClock_keeps assms)
  have "emit e t = u" if "clock = None" using none that by (cases t) (simp add: u_def emit_def)
  then have "I (emit e t)" if "clock = None" using u that by simp
  moreover have "client_setupClock E s =
    (if clock = None then emit e t
     else emit (Clk (Set_base_time (mPipeline u) (mBaseTime u))) (emit (Clk (Set_start_time (mPipeline u)))
       (emit (Clk (Use_clock (mPipeline u) clock)) (emit (Clk (Clock_set_timeout clock)) u))))\<lparr>mBaseTime := 0\<rparr>"
    using p
    by (simp add: client_setupClock_def t_def [symmetric] e_def [symmetric] clock_def [symmetric]
        u_def ask_def Let_def)
  moreover have "I (emit (Clk (Set_base_time (mPipeline u) (mBaseTime u))) (emit (Clk (Set_start_time (mPipeline u)))
       (emit (Clk (Use_clock (mPipeline u) clock)) (emit (Clk (Clock_set_timeout clock)) u))))"
    using u by (simp add: keep_quiet)
  ultimately show ?thesis by (simp add: keep_base)
qed

lemma follow_mute_keeps: "I s \<Longrightarrow> I (follow_mute E packet s)"
  by (simp add: follow_mute_def setMute_keeps)

lemma follow_volume_keeps: "I s \<Longrightarrow> I (follow_volume E packet s)"
  using getVolume_keeps [of s] by (simp add: follow_volume_def split_beta setVolume_keeps)

lemma follow_base_keeps: "I s \<Longrightarrow> I (follow_base E packet s)"
  by (simp add: follow_base_def ask_def keep_quiet keep_base)

lemma follow_state_keeps: "I s \<Longrightarrow> I (follow_state E packet s)"
  using queryState_keeps [of s] by (simp add: follow_state_def split_beta plain.setState_keeps)

lemma onMessage_keeps: "I s \<Longrightarrow> I (client_onMessage E m s)"
  unfolding client_onMessage_def split_beta Let_def
  by (intro if_pred [of I] follow_state_keeps follow_base_keeps follow_volume_keeps follow_mute_keeps)

end

text \<open>A client player relies on its network part through the methods of \<open>Client\<close>: what they keep, all
  of its methods keep.\<close>

locale client_network = client_members E I
  for E :: env and I :: "player_client \<Rightarrow> bool" +
  assumes net_connect: "I s \<Longrightarrow> I (snd (connect E (player_client_class E) address port s))"
    and net_disconnect: "I s \<Longrightarrow> I (disconnect (player_client_class E) s)"
    and net_send: "I s \<Longrightarrow> I (sendToServer E (player_client_class E) m s)"
    and net_iterate: "I s \<Longrightarrow> I (Client_iterate E (player_client_class E) s)"
begin

lemma onBeforeUpdate_keeps: "I s \<Longrightarrow> I (client_onBeforeUpdate E s)"
  using net_iterate [of s]
  by (auto simp: client_onBeforeUpdate_def ask_def Let_def intro!: keep_quiet setupClock_keeps)

end

text \<open>An invariant that does not depend on the network at all.\<close>

locale client_effects = client_members E I
  for E :: env and I :: "player_client \<Rightarrow> bool" +
  assumes keep_part: "I s \<Longrightarrow> I (s\<lparr>pc_client := c\<rparr>)"
    and keep_gio: "I s \<Longrightarrow> I (emit (Gio g) s)"
begin

lemma sendToServer_keeps: "I s \<Longrightarrow> I (sendToServer E (player_client_class E) m s)"
  by (auto simp: sendToServer_def ask_def Let_def intro!: keep_quiet keep_gio)

lemma disconnect_keeps: "I s \<Longrightarrow> I (disconnect (player_client_class E) s)"
  by (auto simp: disconnect_def clear_object_def Let_def intro!: keep_quiet keep_gio keep_part)

lemma connect_keeps:
  assumes "I s"
  shows "I (snd (connect E (player_client_class E) address port s))"
proof -
  let ?C = "player_client_class E"
  have put: "I (put_client ?C c t)" if "I t" for c t using that by (simp add: keep_part)
  have em: "I (emit (Gio x) t)" if "I t" for x t using that by (rule keep_gio)
  have log: "I (NSVR_LOG m t)" if "I t" for m t using that by (simp add: keep_quiet keep_gio)
  define u where "u = (if isConnected ?C s then disconnect ?C s else s)"
  have u: "I u" unfolding u_def by (intro if_pred [of I] disconnect_keeps assms)
  show ?thesis
    unfolding connect_def leave_scope Let_def split_beta ask_simps u_def [symmetric] if_distrib [of snd] snd_conv
    by (intro if_pred [of I] log put em u)
qed

lemma incomming_keeps:
  assumes "I s"
  shows "I (snd (incomming E (player_client_class E) sock s))"
proof -
  let ?C = "player_client_class E"
  let ?t = "emit (Gio (Socket_receive sock 1024)) (emit (Gio (Socket_ref sock)) s)"
  define u where "u = (case g_socket_receive E (trace ?t) of
      None \<Rightarrow> disconnect ?C (NSVR_LOG ''Unable to receive socket data'' ?t)
    | Some bytes \<Rightarrow>
        if bytes = [] then log_error False ''Receiver Peer connection closed by sender Peer'' ?t
        else if isConnected ?C ?t then
          (case buffer_text 1024 bytes of
             None \<Rightarrow> emit (Fault ''receive buffer without a terminator'') ?t
           | Some text \<Rightarrow> client_onMessage E text ?t)
        else NSVR_LOG ''Peer received a message but it is disconnected.'' ?t)"
  have t: "I ?t" using assms by (simp add: keep_quiet keep_gio)
  have e: "I (emit (Fault m) ?t)" "I (NSVR_LOG m ?t)" for m
    using keep_quiet [OF t, of "Fault m"] keep_quiet [OF t, of "Logged m"] by simp_all
  have "I u" unfolding u_def
    by (auto split: option.split intro!: disconnect_keeps log_error_keeps onMessage_keeps t e
        simp del: emit_simps)
  moreover have "snd (incomming E ?C sock s) = emit (Gio (Socket_unref sock)) u"
    unfolding incomming_def u_def
    by (simp add: ask_def Let_def split: option.split)
  ultimately show ?thesis by (simp add: keep_quiet keep_gio)
qed

lemma iterate_loop_keeps: "I s \<Longrightarrow> I (Client_iterate_loop n E (player_client_class E) s)"
proof (induction n arbitrary: s)
  case (Suc n)
  let ?a = "emit (Gio (Context_pending (mContext (pc_client s)))) s"
  let ?b = "emit (Gio (Context_iteration (mContext (pc_client s)))) ?a"
  have a: "I ?a" and b: "I ?b" using Suc.prems by (simp_all add: keep_quiet keep_gio)
  have "Client_iterate_loop (Suc n) E (player_client_class E) s =
    (if \<not> g_main_context_pending E (trace ?a) then ?a
     else Client_iterate_loop n E (player_client_class E)
       (if g_main_context_iteration E (trace ?b) \<and> mContext (pc_client s) \<noteq> None
        then snd (incomming E (player_client_class E) (mReceiveSocket (pc_client s)) ?b) else ?b))"
    by (cases "mContext (pc_client s)") (simp_all add: ask_def Let_def)
  also have "I \<dots>" by (intro if_pred [of I] Suc.IH incomming_keeps a b)
  finally show ?case .
qed (simp add: keep_quiet keep_gio)

end

sublocale client_effects \<subseteq> client_network E I
  by unfold_locales
    (simp_all add: connect_keeps disconnect_keeps sendToServer_keeps Client_iterate_def iterate_loop_keeps)

lemma sendToServer_player [simp]:
  "mPipeline (sendToServer E C m s) = mPipeline s" "mGstBus (sendToServer E C m s) = mGstBus s"
  for s :: player_client
  by (simp_all add: sendToServer_def ask_def Let_def)

lemma client_vtable_simps [simp]:
  "onVideoFrame (player_client_vtable E) = (\<lambda>_ _ s. s)"
  "onStateChanged (player_client_vtable E) = (\<lambda>_ s. s)"
  "onStreamEnd (player_client_vtable E) = (\<lambda>s. s)"
  "onSeekFinished (player_client_vtable E) = (\<lambda>s. s)"
  "onBeforeSetState (player_client_vtable E) = (\<lambda>_ s. s)"
  "setTime (player_client_vtable E) = Player_setTime E"
  "setupClock (player_client_vtable E) = client_setupClock E"
  "onBeforeOpen (player_client_vtable E) = client_onBeforeOpen E"
  "onBeforeClose (player_client_vtable E) = client_onBeforeClose"
  "onBeforeUpdate (player_client_vtable E) = client_onBeforeUpdate E"
  by (simp_all add: player_client_vtable_def player_vtable_def)

sublocale client_network \<subseteq> following: player_contract E I "player_client_vtable E"
  by unfold_locales
    (simp_all add: Player_setTime_keeps setupClock_keeps onBeforeUpdate_keeps clearClock_keeps
      client_onBeforeOpen_def client_onBeforeClose_def net_send)

interpretation client_slot: client_effects E slot_ok for E
  by unfold_locales (simp_all add: slot_ok_def)

interpretation client_seeks: client_effects E "seek_ok E" for E
  by unfold_locales (auto simp: seek_ok_def)

interpretation client_ownership: client_effects E "owner_ok E" for E
  by unfold_locales (simp_all add: owner_ok_def slot_ok_def held_def)

end
