(* ===== verification/Net_Clocks.thy ===== *)
theory Net_Clocks
  imports Player_Invariants
begin

text \<open>
  The references to clocks and to the network time provider that the networked players acquire and
  give back, counted along a history, and the invariants their members keep. The plain player
  makes no clock calls at all.
\<close>

section \<open>Counting clock references\<close>

datatype clock_kind = K_clock | K_provider

fun clock_acquires :: "env \<Rightarrow> event \<Rightarrow> event list \<Rightarrow> clock_kind \<times> ptr" where
  "clock_acquires E (Clk (Pipeline_get_clock p)) h =
     (K_clock, gst_pipeline_get_clock E (Clk (Pipeline_get_clock p) # h))"
| "clock_acquires E (Clk (Net_client_clock_new a n b)) h =
     (K_clock, gst_net_client_clock_new E (Clk (Net_client_clock_new a n b) # h))"
| "clock_acquires E (Clk (Net_time_provider_new c a n)) h =
     (K_provider, gst_net_time_provider_new E (Clk (Net_time_provider_new c a n) # h))"
| "clock_acquires E e h = (K_clock, None)"

fun clock_drops :: "event \<Rightarrow> clock_kind \<times> ptr" where
  "clock_drops (Clk (Clock_unref p)) = (K_clock, p)"
| "clock_drops (Clk (Provider_unref p)) = (K_provider, p)"
| "clock_drops e = (K_clock, None)"

fun clock_balance :: "env \<Rightarrow> event list \<Rightarrow> clock_kind \<Rightarrow> nat \<Rightarrow> int" where
  "clock_balance E [] k p = 0"
| "clock_balance E (e # h) k p =
     clock_balance E h k p + count_ref (clock_acquires E e h) k p - count_ref (clock_drops e) k p"

text \<open>Every reference that is given back is owned at that moment.\<close>

fun clock_lawful :: "env \<Rightarrow> event list \<Rightarrow> bool" where
  "clock_lawful E [] = True"
| "clock_lawful E (e # h) =
     ((case clock_drops e of (k, None) \<Rightarrow> True | (k, Some p) \<Rightarrow> 0 < clock_balance E h k p) \<and> clock_lawful E h)"

text \<open>An event that leaves the clock references alone.\<close>

definition clock_neutral :: "event \<Rightarrow> bool" where
  "clock_neutral e \<longleftrightarrow> (\<forall>E h. snd (clock_acquires E e h) = None) \<and> snd (clock_drops e) = None"

lemma clock_neutral_simps [simp]:
  "clock_neutral (Gst g)" "clock_neutral (Gio i)" "clock_neutral (Logged m)" "clock_neutral (Fault m)"
  by (simp_all add: clock_neutral_def)

lemma quiet_clock_neutral: "quiet e \<Longrightarrow> clock_neutral e"
  by (cases e rule: quiet.cases) (auto simp: clock_neutral_def)

lemma neutral_balance [simp]:
  assumes "clock_neutral e"
  shows "clock_balance E (e # h) k p = clock_balance E h k p" "clock_lawful E (e # h) = clock_lawful E h"
proof -
  obtain k1 where a: "clock_acquires E e h = (k1, None)"
    using assms by (metis clock_neutral_def surjective_pairing)
  obtain k2 where d: "clock_drops e = (k2, None)"
    using assms by (metis clock_neutral_def surjective_pairing)
  show "clock_balance E (e # h) k p = clock_balance E h k p" "clock_lawful E (e # h) = clock_lawful E h"
    using a d by simp_all
qed

declare clock_balance.simps(2) [simp del] clock_lawful.simps(2) [simp del]

lemma clock_frames [simp]:
  "clock_balance E (trace (read_caps c s)) k p = clock_balance E (trace s) k p"
  "clock_lawful E (trace (read_caps c s)) = clock_lawful E (trace s)"
  "clock_balance E (trace (release f q s)) k p = clock_balance E (trace s) k p"
  "clock_lawful E (trace (release f q s)) = clock_lawful E (trace s)"
  using trace_read_caps [of c s] by (auto simp: release_def)

lemma clock_samples [simp]:
  "clock_balance E (trace (processSample E' x s)) k p = clock_balance E (trace s) k p"
  "clock_lawful E (trace (processSample E' x s)) = clock_lawful E (trace s)"
  by (simp_all add: processSample_def ask_def Let_def)

lemma clock_pulls [simp]:
  "clock_balance E (trace (onPreroll E' s)) k p = clock_balance E (trace s) k p"
  "clock_lawful E (trace (onPreroll E' s)) = clock_lawful E (trace s)"
  "clock_balance E (trace (onSample E' s)) k p = clock_balance E (trace s) k p"
  "clock_lawful E (trace (onSample E' s)) = clock_lawful E (trace s)"
  by (simp_all add: onPreroll_def onSample_def ask_def Let_def split: option.split)

text \<open>The methods of the plain player make no clock call: whatever is owned before, is owned after.\<close>

definition clock_count :: "env \<Rightarrow> clock_kind \<Rightarrow> nat \<Rightarrow> int \<Rightarrow> 'a world_scheme \<Rightarrow> bool" where
  "clock_count E k p n s \<longleftrightarrow> clock_balance E (trace s) k p = n"

interpretation no_clock_calls: player_effects E' "clock_count E k p n" for E' E k p n
  by unfold_locales (simp_all add: clock_count_def quiet_clock_neutral Player_reset_def)

text \<open>A history of quiet events owns nothing.\<close>

lemma quiet_clock_history:
  "list_all (\<lambda>e. quiet e \<and> fits None None e) h \<Longrightarrow> clock_lawful E h \<and> clock_balance E h k p = 0"
  by (induction h) (simp_all add: quiet_clock_neutral)

section \<open>Opening in the calm environment\<close>

lemma calm_force_state: "force_state calm V st msg s = (True, emit (Gst (Set_state (mPipeline s) st)) s)"
  by (simp add: force_state_def ask_def Let_def)

lemma calm_discovery:
  assumes "path \<noteq> []"
  shows "\<exists>d t. Discoverer_open calm path new_discoverer s = (True, d, t) \<and> mHasVideo d"
  using assms
  by (auto simp: Discoverer_open_def gstreamerInitialized_def pathToUri_def ask_def Let_def store_info_def
      scan_video_def scan_audio_def)

lemma calm_open_pipeline:
  assumes "\<And>s. mPipeline (setupClock V s) = mPipeline s" and "path \<noteq> []"
  shows "mPipeline (snd (open_sized calm V path w h fmt s)) = Some 1"
proof -
  obtain u where u: "gstreamerInitialized calm s = (True, u)"
    by (simp add: gstreamerInitialized_def ask_def)
  obtain d t where d: "Discoverer_open calm path new_discoverer (onBeforeOpen V (close calm V u)) = (True, d, t)"
      "mHasVideo d"
    using calm_discovery [OF assms(2)] by blast
  then have "pipeline_cmd d w h fmt \<noteq> None" by (simp add: pipeline_cmd_def getHasVideo_def)
  then show ?thesis using u d assms
    by (auto simp: open_sized_def Let_def launch_def preroll_pipeline_def hook_sink_def getHasVideo_def
        calm_force_state ask_def)
qed

end
