(* ===== verification/Player_Client_Properties.thy ===== *)
theory Player_Client_Properties
  imports Player_Client Net_Clocks
begin

text \<open>
  What the client player guarantees over a whole life: every sequence of the public methods of its
  bases \<open>Player\<close> and \<open>Client\<close>, from construction to destruction, with whatever arrives on its socket
  in between. The invariants are instances of \<open>client_effects\<close>. Then how it takes over the base
  time and the state of the server.
\<close>

section \<open>Runs of a client player\<close>

datatype client_op =
    Client_player player_op
  | Client_connect string int16
  | Client_disconnect
  | Client_send string
  | Client_iterate_call

fun exec_client_op :: "env \<Rightarrow> client_op \<Rightarrow> player_client \<Rightarrow> player_client" where
  "exec_client_op E (Client_player p) s = exec_op E (player_client_vtable E) p s"
| "exec_client_op E (Client_connect a p) s = snd (connect E (player_client_class E) a p s)"
| "exec_client_op E Client_disconnect s = disconnect (player_client_class E) s"
| "exec_client_op E (Client_send m) s = sendToServer E (player_client_class E) m s"
| "exec_client_op E Client_iterate_call s = Client_iterate E (player_client_class E) s"

definition client_run :: "env \<Rightarrow> client_op list \<Rightarrow> player_client \<Rightarrow> player_client" where
  "client_run E ops s = fold (exec_client_op E) ops s"

context client_network
begin

lemma exec_client_op_keeps: "I s \<Longrightarrow> I (exec_client_op E p s)"
  by (cases p) (simp_all add: following.exec_op_keeps net_connect net_disconnect net_send net_iterate)

lemma client_run_keeps: "I s \<Longrightarrow> I (client_run E ops s)"
  unfolding client_run_def by (induction ops arbitrary: s) (simp_all add: exec_client_op_keeps)

lemma ctor_keeps:
  assumes "I ((Player_ctor E s)\<lparr>pc_client := new_client, pc_mNetClock := None\<rparr>)"
  shows "I (PlayerClient_ctor E address port s)"
proof -
  define t where "t = (Player_ctor E s)\<lparr>pc_client := new_client, mBaseTime := 0, pc_mNetClock := None\<rparr>"
  have "t = ((Player_ctor E s)\<lparr>pc_client := new_client, pc_mNetClock := None\<rparr>)\<lparr>mBaseTime := 0\<rparr>"
    by (simp add: t_def)
  then have "I t" using assms by (simp only:) (rule keep_base)
  then have "I (snd (connect E (player_client_class E) address port t))" by (rule net_connect)
  then show ?thesis
    unfolding PlayerClient_ctor_def Let_def split_beta t_def [symmetric]
    by (intro if_pred [of I] net_send) (simp_all add: keep_quiet)
qed

lemma dtor_keeps: "I s \<Longrightarrow> I (PlayerClient_dtor E s)"
  by (simp add: PlayerClient_dtor_def Player_dtor_def plain.close_keeps Client_dtor_def net_disconnect)

end

section \<open>The network clock\<close>

definition client_held :: "player_client \<Rightarrow> clock_kind \<Rightarrow> nat \<Rightarrow> int" where
  "client_held s k p = count_ref (K_clock, pc_mNetClock s) k p"

definition client_clock_ok :: "env \<Rightarrow> player_client \<Rightarrow> bool" where
  "client_clock_ok E s \<longleftrightarrow> clock_lawful E (trace s) \<and>
     (\<forall>k p. clock_balance E (trace s) k p = client_held s k p)"

lemma release_player_client_simps [simp]: "pc_mNetClock (release f p s) = pc_mNetClock s"
  by (simp add: release_def)

lemma client_clock_effects: "player_effects E (client_clock_ok E)"
  by unfold_locales
    (simp_all add: client_clock_ok_def client_held_def quiet_clock_neutral Player_reset_def,
     simp_all add: onPreroll_def onSample_def processSample_def ask_def Let_def read_caps_def
       split: option.split caps.split)

interpretation client_clocks: client_effects E "client_clock_ok E" for E
  by (intro client_effects.intro client_members.intro client_clock_effects)
    (auto simp: client_effects_axioms_def client_members_axioms_def client_clock_ok_def client_held_def clock_balance.simps(2)
      clock_lawful.simps(2))

lemma client_close_clears_clock:
  assumes "mPipeline s \<noteq> None"
  shows "pc_mNetClock (close E (player_client_vtable E) s) = None"
proof -
  have st: "pc_mNetClock (setState E (player_client_vtable E) st s) = pc_mNetClock s" for st s
    by (simp add: setState_def ask_def Let_def)
  show ?thesis using assms
    by (auto simp: close_def Let_def client_onBeforeClose_def client_clearClock_def Player_reset_def stop_def st)
qed

lemma client_dtor_keeps_clocks:
  "clock_balance E (trace (PlayerClient_dtor E' s)) k p = clock_balance E (trace s) k p"
proof -
  have "clock_balance E (trace (Client_dtor (player_client_class E') s)) k p = clock_balance E (trace s) k p"
    by (simp add: Client_dtor_def disconnect_def clear_object_def Let_def)
  then show ?thesis
    using no_clock_calls.plain.close_keeps [of E k p _ "Client_dtor (player_client_class E') s" E']
    by (simp add: PlayerClient_dtor_def Player_dtor_def clock_count_def)
qed

section \<open>Every life of a client player\<close>

definition client_storage :: player_client where
  "client_storage = player.extend fresh_storage
     \<lparr>pc_client = new_client, pc_mNetClock = None, mBaseTime = 0\<rparr>"

definition demo_client_ops :: "client_op list" where
  "demo_client_ops = [Client_player (Op_open ''a.mp4'' 640 480 ''BGRA'')]"

lemma trace_client_storage: "trace client_storage = []"
  by (simp add: client_storage_def player.defs fresh_storage_def)

lemma client_run_ok:
  assumes "trace s = []" and "t = client_run E ops (PlayerClient_ctor E a p s)"
  shows "slot_ok t" "seek_ok E t" "owner_ok E t" "client_clock_ok E t"
proof -
  note fresh = fresh_player [OF assms(1), of E] quiet_clock_history [OF Player_ctor_trace [OF assms(1), of E]]
  show "slot_ok t" unfolding assms(2)
    by (intro client_slot.client_run_keeps client_slot.ctor_keeps) (use fresh in \<open>simp add: slot_ok_def\<close>)
  show "seek_ok E t" unfolding assms(2)
    by (intro client_seeks.client_run_keeps client_seeks.ctor_keeps) (use fresh in \<open>auto simp: seek_ok_def\<close>)
  show "owner_ok E t" unfolding assms(2)
    by (intro client_ownership.client_run_keeps client_ownership.ctor_keeps)
      (use fresh in \<open>simp add: owner_ok_def slot_ok_def held_def\<close>)
  show "client_clock_ok E t" unfolding assms(2)
    by (intro client_clocks.client_run_keeps client_clocks.ctor_keeps)
      (use fresh in \<open>simp add: client_clock_ok_def client_held_def\<close>)
qed


lemma client_setupClock_pipeline: "mPipeline (client_setupClock E s) = mPipeline s"
  by (simp add: client_setupClock_def client_clearClock_def ask_def Let_def)


end
