(* ===== verification/Player_Server.thy ===== *)
theory Player_Server
  imports Player_Invariants Server Packet_Handler
begin

text \<open>
  The server player of \<open>nsvr_player_server.hpp/.cpp\<close>: a \<open>Player\<close> and a \<open>Server\<close> that publishes its
  clock and broadcasts heartbeats, and that seeks by moving the base time of its pipeline.
\<close>

record player_server = player +
  ps_server :: server
  ps_mNetClock :: ptr
  mNetProvider :: ptr
  mPendingCurrentTime :: uint64
  mPendingStateSeek :: double
  mPendingState :: int32
  mHeartbeatCounter :: uint32
  mHeartbeatFrequency :: uint32

text \<open>\<open>PlayerServer\<close> does not override \<open>onMessage\<close>.\<close>

definition player_server_class :: "player_server server_class" where
  "player_server_class = \<lparr>get_server = ps_server, put_server = (\<lambda>c s. s\<lparr>ps_server := c\<rparr>),
     Server_onMessage = (\<lambda>_ s. s)\<rparr>"

lemma emit_player_server_simps [simp]:
  "ps_server (emit e s) = ps_server s" "ps_mNetClock (emit e s) = ps_mNetClock s"
  "mNetProvider (emit e s) = mNetProvider s" "mPendingCurrentTime (emit e s) = mPendingCurrentTime s"
  "mPendingStateSeek (emit e s) = mPendingStateSeek s" "mPendingState (emit e s) = mPendingState s"
  "mHeartbeatCounter (emit e s) = mHeartbeatCounter s" "mHeartbeatFrequency (emit e s) = mHeartbeatFrequency s"
  by (simp_all add: emit_def)

lemma ps_class_simps [simp]:
  "get_server player_server_class = ps_server" "put_server player_server_class c s = s\<lparr>ps_server := c\<rparr>"
  "Server_onMessage player_server_class m s = s"
  by (simp_all add: player_server_class_def)

interpretation ps_server: server_object player_server_class
  by unfold_locales (simp_all add: emit_def)

section \<open>Heartbeats\<close>

definition setHeartbeatFrequency :: "uint32 \<Rightarrow> player_server \<Rightarrow> player_server" where
  "setHeartbeatFrequency freq s =
     (if freq = mHeartbeatFrequency s then s
      else s\<lparr>mHeartbeatFrequency := freq, mHeartbeatCounter := 0\<rparr>)"

definition getHeartbeatFrequency :: "player_server \<Rightarrow> uint32" where
  "getHeartbeatFrequency s = mHeartbeatFrequency s"

definition heartbeat_packet :: "env \<Rightarrow> player_server \<Rightarrow> packet \<times> player_server" where
  "heartbeat_packet E s =
     (let (time, s) = getTime E s;
          (vol, s) = getVolume E s;
          mute = (if getMute s then 1 else 0);
          state = getState s;
          (base, s) = ask (gst_element_get_base_time E) (Clk (Get_base_time (mPipeline s))) s
      in (\<lparr>pkt_time = time, pkt_volume = vol, pkt_mute = mute, pkt_state = state, pkt_base = base\<rparr>, s))"

definition dispatchHeartbeat :: "env \<Rightarrow> player_server \<Rightarrow> player_server" where
  "dispatchHeartbeat E s =
     (if mPipeline s = None then s
      else (let (packet, s) = heartbeat_packet E s
            in broadcastToClients E player_server_class (serialize packet) s))"

section \<open>Clocks\<close>

definition server_clearClock :: "player_server \<Rightarrow> player_server" where
  "server_clearClock s =
     (if mPipeline s = None then s
      else
        (let s = (if ps_mNetClock s \<noteq> None
                  then (emit (Clk (Clock_unref (ps_mNetClock s))) s)\<lparr>ps_mNetClock := None\<rparr> else s)
         in if mNetProvider s \<noteq> None
            then (emit (Clk (Provider_unref (mNetProvider s))) s)\<lparr>mNetProvider := None\<rparr> else s))"

definition server_setupClock :: "env \<Rightarrow> player_server \<Rightarrow> player_server" where
  "server_setupClock E s =
     (if mPipeline s = None then s
      else
        (let s = server_clearClock s;
             (clock, s) = ask (gst_pipeline_get_clock E) (Clk (Pipeline_get_clock (mPipeline s))) s;
             s = s\<lparr>ps_mNetClock := clock\<rparr> in
         if clock = None then s
         else
           (let (provider, s) = ask (gst_net_time_provider_new E)
                  (Clk (Net_time_provider_new clock (c_str (getListenAddress player_server_class s))
                     (scast (getClockPort (getListenPort player_server_class s))))) s;
                s = s\<lparr>mNetProvider := provider\<rparr> in
            if provider = None then s
            else
              (let (base_time, s) = ask (gst_clock_get_time E) (Clk (Clock_get_time clock)) s;
                   s = emit (Clk (Clock_set_timeout clock)) s;
                   s = emit (Clk (Use_clock (mPipeline s) clock)) s;
                   s = emit (Clk (Set_start_time (mPipeline s))) s
               in emit (Clk (Set_base_time (mPipeline s) base_time)) s))))"

section \<open>Seeking\<close>

definition server_setTime :: "env \<Rightarrow> double \<Rightarrow> player_server \<Rightarrow> player_server" where
  "server_setTime E time s =
     (let (now, s) = ask (gst_clock_get_time E) (Clk (Clock_get_time (ps_mNetClock s))) s;
          s = s\<lparr>mPendingCurrentTime := now\<rparr>;
          s = s\<lparr>mPendingSeek := clamp time 0 (getDuration s)\<rparr>;
          (st, s) = queryState E s
      in s\<lparr>mPendingState := st\<rparr>)"

definition server_onBeforeSetState :: "env \<Rightarrow> int32 \<Rightarrow> player_server \<Rightarrow> player_server" where
  "server_onBeforeSetState E target_state s =
     (if target_state = GST_STATE_NULL then s\<lparr>mPendingStateSeek := 0\<rparr>
      else if target_state = GST_STATE_PAUSED then
        (let (time, s) = getTime E s in s\<lparr>mPendingStateSeek := time\<rparr>)
      else s)"

definition server_onStateChanged :: "env \<Rightarrow> int32 \<Rightarrow> player_server \<Rightarrow> player_server" where
  "server_onStateChanged E old_state s =
     (let (st, s) = queryState E s in
      if st = GST_STATE_PLAYING \<and> 0 \<le> mPendingStateSeek s
      then (server_setTime E (mPendingStateSeek s) s)\<lparr>mPendingStateSeek := - 1\<rparr>
      else s)"

text \<open>The new base time: the distance of the clock from the base time is replaced by the target of
  the seek. Subtraction and addition wrap; the conversion back is undefined for a difference that
  does not fit, \<open>None\<close>. The base time is read twice.\<close>

definition seek_base :: "uint64 \<Rightarrow> uint64 \<Rightarrow> uint64 \<Rightarrow> double \<Rightarrow> uint64 option" where
  "seek_base now base base' target =
     (let time_curr = int_to_double (uint (now - base)) / GST_SECOND;
          time_diff = time_curr - target in
      case double_to_uint64 (time_diff * GST_SECOND) of
        None \<Rightarrow> None
      | Some d \<Rightarrow> Some (base' + d))"

definition perform_seek :: "env \<Rightarrow> player_server \<Rightarrow> player_server" where
  "perform_seek E s =
     (let (base, s) = ask (gst_element_get_base_time E) (Clk (Get_base_time (mPipeline s))) s;
          (base', s) = ask (gst_element_get_base_time E) (Clk (Get_base_time (mPipeline s))) s in
      case seek_base (mPendingCurrentTime s) base base' (mPendingSeek s) of
        None \<Rightarrow> emit (Fault ''GstClockTime conversion out of range'') s
      | Some time_base \<Rightarrow>
          (let s = emit (Clk (Set_base_time (mPipeline s) time_base)) s;
               (r, s) = ask (gst_element_set_state E) (Gst (Set_state (mPipeline s) (mPendingState s))) s;
               s = (if r = Change_failure
                    then NSVR_LOG ''Server failed to put pipeline into old state for a pending seek.'' s else s)
           in s\<lparr>mPendingSeek := - 1, mPendingState := GST_STATE_NULL,
                 mPendingCurrentTime := GST_CLOCK_TIME_NONE\<rparr>))"

definition pending_seek_step :: "env \<Rightarrow> player_server \<Rightarrow> player_server" where
  "pending_seek_step E s =
     (if 0 \<le> mPendingSeek s then
        (if getState s \<noteq> GST_STATE_READY then
           (let (r, s) = ask (gst_element_set_state E) (Gst (Set_state (mPipeline s) GST_STATE_READY)) s
            in if r = Change_failure
               then NSVR_LOG ''Server failed to put pipeline into READY state for a pending seek.'' s else s)
         else perform_seek E s)
      else s)"

definition heartbeat_step :: "env \<Rightarrow> player_server \<Rightarrow> player_server" where
  "heartbeat_step E s =
     (if mHeartbeatFrequency s < mHeartbeatCounter s
      then (dispatchHeartbeat E s)\<lparr>mHeartbeatCounter := 0\<rparr> else s)"

definition server_onBeforeUpdate :: "env \<Rightarrow> player_server \<Rightarrow> player_server" where
  "server_onBeforeUpdate E s =
     (if mPipeline s = None then s
      else
        (let s = Server_iterate E player_server_class s;
             s = heartbeat_step E s;
             s = pending_seek_step E s
         in s\<lparr>mHeartbeatCounter := mHeartbeatCounter s + 1\<rparr>))"

definition server_onBeforeClose :: "player_server \<Rightarrow> player_server" where
  "server_onBeforeClose s = server_clearClock s"

definition player_server_vtable :: "env \<Rightarrow> player_server vtable" where
  "player_server_vtable E =
     (player_vtable E)\<lparr>onStateChanged := server_onStateChanged E, setupClock := server_setupClock E,
       onBeforeClose := server_onBeforeClose, onBeforeUpdate := server_onBeforeUpdate E,
       onBeforeSetState := server_onBeforeSetState E, setTime := server_setTime E\<rparr>"

text \<open>Construction; \<open>mClockOffset\<close> is never used. Destruction runs with the base classes' vtables.\<close>

definition PlayerServer_ctor :: "env \<Rightarrow> string \<Rightarrow> int16 \<Rightarrow> player_server \<Rightarrow> player_server" where
  "PlayerServer_ctor E address port s =
     (let s = Player_ctor E s;
          s = s\<lparr>ps_server := new_server, ps_mNetClock := None, mNetProvider := None,
                mHeartbeatCounter := 0, mHeartbeatFrequency := 30, mPendingStateSeek := - 1,
                mPendingState := GST_STATE_NULL, mPendingCurrentTime := GST_CLOCK_TIME_NONE\<rparr>;
          (ok, s) = listen E player_server_class address port s
      in if ok then s else NSVR_LOG ''Player was unable to join the default multicast group.'' s)"

definition PlayerServer_dtor :: "env \<Rightarrow> player_server \<Rightarrow> player_server" where
  "PlayerServer_dtor E s = Player_dtor E (Server_dtor E player_server_class s)"

section \<open>The server player keeps the invariants of the player\<close>

text \<open>First what the server part alone does: it calls GIO, logs, and changes its own members.\<close>

locale server_net =
  fixes E :: env
    and I :: "player_server \<Rightarrow> bool"
  assumes net_quiet: "I s \<Longrightarrow> quiet e \<Longrightarrow> fits None None e \<Longrightarrow> I (emit e s)"
    and net_gio: "I s \<Longrightarrow> I (emit (Gio g) s)"
    and keep_part: "I s \<Longrightarrow> I (s\<lparr>ps_server := c\<rparr>)"
begin

lemma send_keeps: "I s \<Longrightarrow> I (UdpEndpoint_send E m n ep s)"
  by (simp add: UdpEndpoint_send_def ask_def Let_def net_quiet net_gio)

lemma broadcast_keeps:
  assumes "I s"
  shows "I (broadcastToClients E player_server_class m s)"
proof -
  have "I (fold (\<lambda>ip s. case map_of eps ip of None \<Rightarrow> s | Some ep \<Rightarrow> UdpEndpoint_send E m 1 ep s) ips s)"
    for eps ips
    using assms by (induction ips arbitrary: s) (auto split: option.split intro: send_keeps)
  then show ?thesis unfolding broadcastToClients_def Let_def by (intro if_pred [of I] assms)
qed

lemma setup_keeps: "I s \<Longrightarrow> I (snd (UdpEndpoint_setup E ip port ep s))"
  by (simp add: UdpEndpoint_setup_def ask_def Let_def net_quiet net_gio)

lemma learn_endpoint_keeps: "I s \<Longrightarrow> I (learn_endpoint E player_server_class ip s)"
  using setup_keeps [of s ip "getListenPort player_server_class s" UdpEndpoint]
  by (simp add: learn_endpoint_def Let_def split_beta keep_part)

lemma getIp_keeps: "I s \<Longrightarrow> I (snd (getIp E s))"
  by (simp add: getIp_def ask_def Let_def net_quiet net_gio split: option.split)

lemma incoming_keeps:
  assumes "I s"
  shows "I (Server_incoming E player_server_class s)"
proof -
  let ?t = "emit (Gio (Stream_read 16)) (emit (Gio Get_input_stream) s)"
  have t: "I ?t" "I (emit (Gio Get_input_stream) s)" using assms by (simp_all add: net_quiet net_gio)
  let ?u = "learn_endpoint E player_server_class (fst (getIp E ?t)) (snd (getIp E ?t))"
  have u: "I ?u" by (intro learn_endpoint_keeps getIp_keeps t)
  then have "I (emit (Fault m) ?u)" "I (NSVR_LOG m ?t)" for m using t by (simp_all add: net_quiet net_gio)
  then show ?thesis using t u
    by (cases "g_input_stream_read E (trace ?t)"; cases "g_io_stream_get_input_stream E (Gio Get_input_stream # trace s)")
      (simp_all add: Server_incoming_def ask_def Let_def split_beta split: option.split)
qed

lemma iterate_loop_keeps: "I s \<Longrightarrow> I (Server_iterate_loop n E player_server_class s)"
proof (induction n arbitrary: s)
  case (Suc n)
  let ?a = "emit (Gio (Context_pending None)) s"
  let ?b = "emit (Gio (Context_iteration None)) ?a"
  have a: "I ?a" and b: "I ?b" using Suc.prems by (simp_all add: net_quiet net_gio)
  have "Server_iterate_loop (Suc n) E player_server_class s =
    (if \<not> g_main_context_pending E (trace ?a) then ?a
     else Server_iterate_loop n E player_server_class
       (if g_main_context_iteration E (trace ?b) then Server_incoming E player_server_class ?b else ?b))"
    by (simp add: ask_def Let_def)
  also have "I \<dots>" by (intro if_pred [of I] Suc.IH incoming_keeps a b)
  finally show ?case .
qed (simp add: net_quiet net_gio)

lemma isListening_keeps: "I s \<Longrightarrow> I (snd (isListening E player_server_class s))"
  by (simp add: isListening_def ask_def net_quiet net_gio split: option.split)

lemma shutdown_keeps: "I s \<Longrightarrow> I (shutdown E player_server_class s)"
  using isListening_keeps [of s]
  by (simp add: shutdown_def split_beta Let_def net_quiet net_gio keep_part)

lemma listen_keeps:
  assumes "I s"
  shows "I (snd (listen E player_server_class address port s))"
proof -
  let ?C = "player_server_class"
  have put: "I (put_server ?C c t)" if "I t" for c t using that by (simp add: keep_part)
  have em: "I (emit (Gio x) t)" if "I t" for x t using that by (simp add: net_quiet net_gio)
  have log: "I (NSVR_LOG m t)" if "I t" for m t using that by (simp add: net_quiet net_gio)
  define u where "u = (if fst (isListening E ?C s) then shutdown E ?C (snd (isListening E ?C s))
    else snd (isListening E ?C s))"
  have u: "I u" unfolding u_def by (intro if_pred [of I] shutdown_keeps isListening_keeps assms)
  show ?thesis
    unfolding listen_def leave_scope Let_def split_beta ask_simps u_def [symmetric] if_distrib [of snd] snd_conv
    by (intro if_pred [of I] log put em isListening_keeps u)
qed

lemma endpoint_dtor_keeps: "I s \<Longrightarrow> I (UdpEndpoint_dtor ep s)"
  by (simp add: UdpEndpoint_dtor_def Let_def net_quiet net_gio)

lemma Server_dtor_keeps:
  assumes "I s"
  shows "I (Server_dtor E player_server_class s)"
proof -
  have "I (fold (\<lambda>ip s. case map_of eps ip of None \<Rightarrow> s | Some ep \<Rightarrow> UdpEndpoint_dtor ep s) ips t)"
    if "I t" for eps ips t
    using that by (induction ips arbitrary: t) (auto split: option.split intro: endpoint_dtor_keeps)
  then show ?thesis unfolding Server_dtor_def Let_def split_beta
    using if_pred [of I, OF shutdown_keeps [OF isListening_keeps [OF assms]] isListening_keeps [OF assms]]
    by blast
qed

end

text \<open>Then what the server player does to its own members.\<close>

locale server_members = player_effects E I
  for E :: env and I :: "player_server \<Rightarrow> bool" +
  assumes keep_clear: "I s \<Longrightarrow> p = ps_mNetClock s \<Longrightarrow> p \<noteq> None \<Longrightarrow>
      I ((emit (Clk (Clock_unref p)) s)\<lparr>ps_mNetClock := None\<rparr>)"
    and keep_clear_provider: "I s \<Longrightarrow> p = mNetProvider s \<Longrightarrow> p \<noteq> None \<Longrightarrow>
      I ((emit (Clk (Provider_unref p)) s)\<lparr>mNetProvider := None\<rparr>)"
    and keep_clock: "I s \<Longrightarrow> ps_mNetClock s = None \<Longrightarrow> e = Clk (Pipeline_get_clock (mPipeline s)) \<Longrightarrow>
      I ((emit e s)\<lparr>ps_mNetClock := gst_pipeline_get_clock E (e # trace s)\<rparr>)"
    and keep_provider: "I s \<Longrightarrow> mNetProvider s = None \<Longrightarrow> k = ps_mNetClock s \<Longrightarrow>
      e = Clk (Net_time_provider_new k a n) \<Longrightarrow>
      I ((emit e s)\<lparr>mNetProvider := gst_net_time_provider_new E (e # trace s)\<rparr>)"
    and keep_current: "I s \<Longrightarrow> I (s\<lparr>mPendingCurrentTime := t\<rparr>)"
    and keep_state_seek: "I s \<Longrightarrow> I (s\<lparr>mPendingStateSeek := d\<rparr>)"
    and keep_pending_state: "I s \<Longrightarrow> I (s\<lparr>mPendingState := x\<rparr>)"
    and keep_counter: "I s \<Longrightarrow> I (s\<lparr>mHeartbeatCounter := n\<rparr>)"
begin

lemma clearClock_keeps: "I s \<Longrightarrow> I (server_clearClock s)"
  by (auto simp: server_clearClock_def Let_def intro!: keep_clear keep_clear_provider)

lemma setupClock_keeps:
  assumes "I s"
  shows "I (server_setupClock E s)"
proof (cases "mPipeline s")
  case None
  then show ?thesis using assms by (simp add: server_setupClock_def)
next
  case (Some p)
  define t where "t = server_clearClock s"
  define e where "e = Clk (Pipeline_get_clock (mPipeline t))"
  define clock where "clock = gst_pipeline_get_clock E (e # trace t)"
  define u where "u = (emit e t)\<lparr>ps_mNetClock := clock\<rparr>"
  define f where "f = Clk (Net_time_provider_new clock (c_str (getListenAddress player_server_class u))
    (scast (getClockPort (getListenPort player_server_class u))))"
  define provider where "provider = gst_net_time_provider_new E (f # trace u)"
  define v where "v = (emit f u)\<lparr>mNetProvider := provider\<rparr>"
  have t: "ps_mNetClock t = None" "mNetProvider t = None"
    using Some by (simp_all add: t_def server_clearClock_def Let_def)
  have u: "I u" unfolding u_def clock_def
    by (rule keep_clock [OF _ t(1) e_def]) (simp add: t_def clearClock_keeps assms)
  have v: "I v" unfolding v_def provider_def
    by (rule keep_provider [OF u _ _ f_def]) (simp_all add: u_def t(2))
  have "server_setupClock E s =
    (if clock = None then u else if provider = None then v
     else emit (Clk (Set_base_time (mPipeline v) (gst_clock_get_time E (Clk (Clock_get_time clock) # trace v))))
       (emit (Clk (Set_start_time (mPipeline v))) (emit (Clk (Use_clock (mPipeline v) clock))
         (emit (Clk (Clock_set_timeout clock)) (emit (Clk (Clock_get_time clock)) v)))))"
    by (simp only: server_setupClock_def Some option.distinct if_False ask_def Let_def prod.case
        emit_player_simps t_def [symmetric] e_def [symmetric] clock_def [symmetric] u_def [symmetric]
        f_def [symmetric] provider_def [symmetric] v_def [symmetric])
  then show ?thesis using u v by (simp add: keep_quiet)
qed

lemma server_setTime_keeps: "I s \<Longrightarrow> I (server_setTime E t s)"
  unfolding server_setTime_def Let_def split_beta ask_simps
  by (intro keep_pending_state queryState_keeps keep_pending keep_current) (simp add: keep_quiet)

lemma onBeforeSetState_keeps: "I s \<Longrightarrow> I (server_onBeforeSetState E st s)"
  unfolding server_onBeforeSetState_def split_beta Let_def
  by (intro if_pred [of I] keep_state_seek getTime_keeps)

lemma onStateChanged_keeps: "I s \<Longrightarrow> I (server_onStateChanged E st s)"
  unfolding server_onStateChanged_def split_beta Let_def
  by (intro if_pred [of I] keep_state_seek server_setTime_keeps queryState_keeps)

lemma heartbeat_packet_keeps: "I s \<Longrightarrow> I (snd (heartbeat_packet E s))"
  using getVolume_keeps [OF getTime_keeps, of s]
  by (simp add: heartbeat_packet_def split_beta Let_def keep_quiet)

lemma perform_seek_keeps: "I s \<Longrightarrow> I (perform_seek E s)"
  by (simp add: perform_seek_def ask_def Let_def keep_quiet keep_pending keep_pending_state keep_current
      split: option.split)

lemma pending_seek_step_keeps: "I s \<Longrightarrow> I (pending_seek_step E s)"
  by (simp add: pending_seek_step_def ask_def keep_quiet perform_seek_keeps)

end

text \<open>A server player relies on its network part through the methods of \<open>Server\<close>: what they keep, all
  of its methods keep.\<close>

locale server_network = server_members E I
  for E :: env and I :: "player_server \<Rightarrow> bool" +
  assumes net_broadcast: "I s \<Longrightarrow> I (broadcastToClients E player_server_class m s)"
    and net_iterate: "I s \<Longrightarrow> I (Server_iterate E player_server_class s)"
    and net_listen: "I s \<Longrightarrow> I (snd (listen E player_server_class address port s))"
    and net_shutdown: "I s \<Longrightarrow> I (shutdown E player_server_class s)"
begin

lemma dispatchHeartbeat_keeps: "I s \<Longrightarrow> I (dispatchHeartbeat E s)"
  unfolding dispatchHeartbeat_def split_beta Let_def
  by (intro if_pred [of I] net_broadcast heartbeat_packet_keeps)

lemma onBeforeUpdate_keeps: "I s \<Longrightarrow> I (server_onBeforeUpdate E s)"
  unfolding server_onBeforeUpdate_def heartbeat_step_def Let_def
  by (intro if_pred [of I] keep_counter pending_seek_step_keeps dispatchHeartbeat_keeps net_iterate)

end

text \<open>An invariant that does not depend on the network at all.\<close>

locale server_effects = server_members E I + server_net E I
  for E :: env and I :: "player_server \<Rightarrow> bool"

sublocale server_effects \<subseteq> server_network E I
  by unfold_locales
    (simp_all add: broadcast_keeps listen_keeps shutdown_keeps Server_iterate_def iterate_loop_keeps)

lemma server_vtable_simps [simp]:
  "onVideoFrame (player_server_vtable E) = (\<lambda>_ _ s. s)"
  "onStateChanged (player_server_vtable E) = server_onStateChanged E"
  "onStreamEnd (player_server_vtable E) = (\<lambda>s. s)"
  "onSeekFinished (player_server_vtable E) = (\<lambda>s. s)"
  "onBeforeSetState (player_server_vtable E) = server_onBeforeSetState E"
  "setTime (player_server_vtable E) = server_setTime E"
  "setupClock (player_server_vtable E) = server_setupClock E"
  "onBeforeOpen (player_server_vtable E) = (\<lambda>s. s)"
  "onBeforeClose (player_server_vtable E) = server_onBeforeClose"
  "onBeforeUpdate (player_server_vtable E) = server_onBeforeUpdate E"
  by (simp_all add: player_server_vtable_def player_vtable_def)

sublocale server_network \<subseteq> serving: player_contract E I "player_server_vtable E"
  by unfold_locales
    (simp_all add: server_setTime_keeps setupClock_keeps onBeforeUpdate_keeps clearClock_keeps
      onBeforeSetState_keeps onStateChanged_keeps server_onBeforeClose_def)

lemma server_effectsI:
  assumes "player_effects E I" and "\<And>s c. I s \<Longrightarrow> I (s\<lparr>ps_server := c\<rparr>)"
    and "\<And>s g. I s \<Longrightarrow> I (emit (Gio g) s)" and "server_members_axioms E I"
  shows "server_effects E I"
  by (intro server_effects.intro server_members.intro server_net.intro)
    (simp_all add: assms fits_None player_effects.keep_quiet [OF assms(1)])

interpretation server_slot: server_effects E slot_ok for E
  by (rule server_effectsI [OF frame_slot.player_effects_axioms])
    (simp_all add: server_members_axioms_def slot_ok_def)

interpretation server_seeks: server_effects E "seek_ok E" for E
  by (rule server_effectsI [OF seeks.player_effects_axioms])
    (auto simp: server_members_axioms_def seek_ok_def)

lemma owner_ok_server_update [simp]:
  "owner_ok E (s\<lparr>ps_server := c\<rparr>) = owner_ok E s" "owner_ok E (s\<lparr>ps_mNetClock := k\<rparr>) = owner_ok E s"
  "owner_ok E (s\<lparr>mNetProvider := k\<rparr>) = owner_ok E s"
  "owner_ok E (s\<lparr>mPendingCurrentTime := t\<rparr>) = owner_ok E s"
  "owner_ok E (s\<lparr>mPendingStateSeek := d\<rparr>) = owner_ok E s" "owner_ok E (s\<lparr>mPendingState := x\<rparr>) = owner_ok E s"
  "owner_ok E (s\<lparr>mHeartbeatCounter := n\<rparr>) = owner_ok E s"
  "owner_ok E (s\<lparr>mHeartbeatFrequency := n\<rparr>) = owner_ok E s"
  by (simp_all add: owner_ok_def slot_ok_def held_def)

interpretation server_ownership: server_effects E "owner_ok E" for E
  by (rule server_effectsI [OF ownership.player_effects_axioms])
    (simp_all add: server_members_axioms_def owner_ok_neutral owner_ok_holds)

section \<open>Seeking by moving the base time\<close>

text \<open>The arithmetic of \<open>perform_seek\<close> on exact numbers: \<open>n\<close> nanoseconds since the base time, the
  target \<open>t\<close> in seconds at least a nanosecond in the past.\<close>

lemma seek_distance:
  fixes t :: rat
  assumes "0 \<le> n" and "n \<le> 2 ^ 50" and "0 \<le> t" and "t * 1000000000 \<le> of_int n - 1"
  shows "\<exists>m. (int_to_double n / GST_SECOND - Fin False t) * GST_SECOND = Fin False m \<and>
    \<bar>m - (of_int n - t * 1000000000)\<bar> \<le> 1 / 2"
proof -
  define N :: rat where "N = of_int n"
  have "N \<le> of_int (2 ^ 50)" unfolding N_def using assms(2) by (simp only: of_int_le_iff)
  then have N: "0 \<le> N" "N \<le> 2 ^ 50" using assms(1) by (simp_all add: N_def)
  have T: "t * 1000000000 \<le> N - 1" using assms(4) by (simp add: N_def)
  define q where "q = round_to 53 (- 1074) (N / 1000000000)"
  have q_err: "\<bar>q - N / 1000000000\<bar> \<le> N / 1000000000 / 2 ^ 53 + tiny"
    unfolding q_def by (rule round_double_error) (use N in simp)
  have tiny: "tiny \<le> 1 / 2 ^ 100" by (rule tiny_bounds)
  define v where "v = q - t"
  have v: "0 < v" "v \<le> 2 ^ 50" using q_err tiny T N assms(3) unfolding v_def by (simp_all add: abs_le_iff)
  define d where "d = round_to 53 (- 1074) v"
  have d_err: "\<bar>d - v\<bar> \<le> v / 2 ^ 53 + tiny"
    unfolding d_def by (rule round_double_error) (use v in simp)
  have d: "0 \<le> d" by (simp add: d_def)
  define m where "m = round_to 53 (- 1074) (d * 1000000000)"
  have m_err: "\<bar>m - d * 1000000000\<bar> \<le> d * 1000000000 / 2 ^ 53 + tiny"
    unfolding m_def by (rule round_double_error) (use d in simp)
  have d_le: "d \<le> 2 ^ 51" using d_err v tiny by (simp add: abs_le_iff)
  have "int_to_double n / GST_SECOND = Fin False q"
    using int_to_double_exact [of n] assms(1,2) N to_double_finite [of "N / 1000000000" False]
    by (simp add: GST_SECOND_def N_def q_def)
  moreover have "Fin False q - Fin False t = Fin False d"
    using v to_double_finite [of v False] by (simp add: minus_double_def fin_val_def v_def d_def)
  moreover have "Fin False d * GST_SECOND = Fin False m"
    using d d_le to_double_finite [of "d * 1000000000" False] by (simp add: GST_SECOND_def m_def)
  moreover have "\<bar>m - (N - t * 1000000000)\<bar> \<le> 1 / 2"
  proof -
    have tiny': "tiny \<le> 1 / 1000000000000" using tiny by simp
    have "N / 1000000000 / 2 ^ 53 \<le> 1 / 8000000000" using N(2) by simp
    then have e1: "\<bar>q * 1000000000 - N\<bar> \<le> 1 / 7" using q_err tiny' by linarith
    have "q * 1000000000 \<le> N + 1 / 7" using e1 by linarith
    then have e2: "v * 1000000000 \<le> 2 ^ 50 + 1" using N assms(3) by (simp add: v_def left_diff_distrib)
    then have "v / 2 ^ 53 \<le> 1 / 7900000000" by simp
    then have e3: "\<bar>d * 1000000000 - v * 1000000000\<bar> \<le> 1 / 7" using d_err tiny' by linarith
    have "d * 1000000000 \<le> v * 1000000000 + 1 / 7" using e3 by linarith
    then have "d * 1000000000 / 2 ^ 53 \<le> 1 / 7" using e2 by simp
    then have e4: "\<bar>m - d * 1000000000\<bar> \<le> 1 / 6" using m_err tiny' by linarith
    have "v * 1000000000 = q * 1000000000 - t * 1000000000" by (simp add: v_def left_diff_distrib)
    then show ?thesis using e1 e3 e4 by linarith
  qed
  ultimately show ?thesis by (simp add: N_def)
qed

lemma seek_base_bound:
  assumes "uint (now - base) \<le> 2 ^ 50" and "0 \<le> t" and "t * 1000000000 \<le> of_int (uint (now - base)) - 1"
  shows "\<exists>base'. seek_base now base base (Fin False t) = Some base' \<and>
    \<bar>of_int (uint (now - base')) - t * 1000000000\<bar> \<le> 2"
proof -
  define n where "n = uint (now - base)"
  obtain m where m: "(int_to_double n / GST_SECOND - Fin False t) * GST_SECOND = Fin False m"
      "\<bar>m - (of_int n - t * 1000000000)\<bar> \<le> 1 / 2"
    using seek_distance [of n t] assms by (auto simp: n_def)
  define k where "k = \<lfloor>m\<rfloor>"
  have k: "of_int k \<le> m" "m < of_int k + 1" using floor_correct [of m] by (simp_all add: k_def)
  have "t * 1000000000 \<le> of_int n - 1" using assms(3) by (simp add: n_def)
  then have "0 \<le> m" using m(2) by linarith
  then have k0: "0 \<le> k" by (simp add: k_def)
  have "(of_int k :: rat) < of_int (n + 1)" using k(1) m(2) assms(2)
    unfolding of_int_add of_int_1 abs_le_iff by linarith
  then have kn: "k \<le> n" by (simp only: of_int_less_iff)
  have n64: "n < 2 ^ 64" unfolding n_def using uint_lt2p [of "now - base"] by simp
  have tr: "double_trunc (Fin False m) = Some k" by (simp add: k_def)
  have base': "seek_base now base base (Fin False t) = Some (base + word_of_int k)"
    using m(1) k0 kn n64 tr
    by (simp add: seek_base_def Let_def n_def [symmetric] double_to_uint64_def del: double_trunc.simps)
  have "uint (now - (base + word_of_int k)) = n - k"
  proof -
    have "now - (base + word_of_int k) = word_of_int (n - k)"
      by (simp add: n_def wi_hom_sub [symmetric] algebra_simps)
    then show ?thesis using k0 kn n64 by (simp only: uint_word_of_int) simp
  qed
  moreover have "\<bar>of_int (n - k) - t * 1000000000\<bar> \<le> (2::rat)"
    using k m(2) unfolding of_int_diff by linarith
  ultimately show ?thesis using base' by (intro exI [of _ "base + word_of_int k"]) simp
qed

text \<open>C10: a backward seek lands where it should. For a session of up to \<open>2 ^ 50\<close> nanoseconds (thirteen
  days) and a target at least a nanosecond before the present, the new base time is defined and
  puts the position of the pipeline, its clock minus its base time, within two nanoseconds of the
  target, all roundings of the double arithmetic included.\<close>

theorem seek_base_accurate:
  assumes "uint (now - base) \<le> 2 ^ 50" and "0 \<le> t" and "t * 1000000000 \<le> of_int (uint (now - base)) - 1"
  shows "\<exists>base'. seek_base now base base (Fin False t) = Some base' \<and>
    \<bar>of_int (uint (now - base')) - t * 1000000000\<bar> \<le> 2"
  using assms by (rule seek_base_bound)

theorem seek_base_accurate_witness:
  "\<exists>base'. seek_base 5000000000 1000000000 1000000000 (Fin False 3) = Some base' \<and>
    \<bar>of_int (uint (5000000000 - base')) - 3 * 1000000000\<bar> \<le> (2 :: rat)"
  by (rule seek_base_accurate) simp_all

text \<open>C40: a forward seek by a second or more has no defined result: the difference to convert to a clock
  time is negative.\<close>

theorem forward_seek_undefined:
  assumes "uint (now - base) \<le> 2 ^ 50" and "t \<le> 2 ^ 50"
    and "of_int (uint (now - base)) + 1000000000 \<le> t * 1000000000"
  shows "seek_base now base base' (Fin False t) = None"
proof -
  define n where "n = uint (now - base)"
  define N :: rat where "N = of_int n"
  have n: "0 \<le> n" "n \<le> 2 ^ 50" using assms(1) by (simp_all add: n_def)
  have "N \<le> of_int (2 ^ 50)" unfolding N_def using n(2) by (simp only: of_int_le_iff)
  then have N: "0 \<le> N" "N \<le> 2 ^ 50" using n(1) by (simp_all add: N_def)
  define q where "q = round_to 53 (- 1074) (N / 1000000000)"
  have q_err: "\<bar>q - N / 1000000000\<bar> \<le> N / 1000000000 / 2 ^ 53 + tiny"
    unfolding q_def by (rule round_double_error) (use N in simp)
  have tiny: "tiny \<le> 1 / 2 ^ 100" by (rule tiny_bounds)
  define v where "v = t - q"
  have q0: "0 \<le> q" by (simp add: q_def)
  have v: "1 / 2 \<le> v" "v \<le> 2 ^ 50" using q_err tiny N assms(2,3) q0
    unfolding v_def N_def [symmetric] n_def [symmetric] by (simp_all add: abs_le_iff)
  define d where "d = round_to 53 (- 1074) v"
  have "\<bar>d - v\<bar> \<le> v / 2 ^ 53 + tiny"
    unfolding d_def by (rule round_double_error) (use v in simp)
  then have d: "1 / 4 \<le> d" "d \<le> 2 ^ 51" using v tiny by (simp_all add: abs_le_iff)
  define m where "m = round_to 53 (- 1074) (d * 1000000000)"
  have "\<bar>m - d * 1000000000\<bar> \<le> d * 1000000000 / 2 ^ 53 + tiny"
    unfolding m_def by (rule round_double_error) (use d in simp)
  then have m: "1 \<le> m" using d tiny by (simp add: abs_le_iff)
  have "int_to_double n / GST_SECOND = Fin False q"
    using int_to_double_exact [of n] n N to_double_finite [of "N / 1000000000" False]
    by (simp add: GST_SECOND_def N_def q_def)
  moreover have "Fin False q - Fin False t = Fin True d"
    using v to_double_finite [of v True] by (simp add: minus_double_def fin_val_def v_def d_def)
  moreover have "Fin True d * GST_SECOND = Fin True m"
    using d to_double_finite [of "d * 1000000000" True] by (simp add: GST_SECOND_def m_def)
  moreover have "1 \<le> \<lfloor>m\<rfloor>" using m by simp
  ultimately show ?thesis
    by (simp add: seek_base_def Let_def n_def [symmetric] double_to_uint64_def)
qed

theorem forward_seek_undefined_witness:
  "seek_base 5000000000 1000000000 1000000000 (Fin False 9) = None"
  by (rule forward_seek_undefined) simp_all

end
