(* ===== verification/Player_Server_Properties.thy ===== *)
theory Player_Server_Properties
  imports Player_Server Net_Clocks
begin

text \<open>
  What the server player guarantees over a whole life: every sequence of the public methods of its
  bases \<open>Player\<close> and \<open>Server\<close> and of its own, from construction to destruction. The invariants of
  the player are instances of \<open>server_effects\<close>; so is the one of the clock it publishes. Then the
  heartbeat period.
\<close>

section \<open>Runs of a server player\<close>

datatype server_op =
    Server_player player_op
  | Server_setHeartbeatFrequency uint32
  | Server_listen string int16
  | Server_shutdown
  | Server_broadcast string
  | Server_iterate_call

fun exec_server_op :: "env \<Rightarrow> server_op \<Rightarrow> player_server \<Rightarrow> player_server" where
  "exec_server_op E (Server_player p) s = exec_op E (player_server_vtable E) p s"
| "exec_server_op E (Server_setHeartbeatFrequency n) s = setHeartbeatFrequency n s"
| "exec_server_op E (Server_listen a p) s = snd (listen E player_server_class a p s)"
| "exec_server_op E Server_shutdown s = shutdown E player_server_class s"
| "exec_server_op E (Server_broadcast m) s = broadcastToClients E player_server_class m s"
| "exec_server_op E Server_iterate_call s = Server_iterate E player_server_class s"

definition server_run :: "env \<Rightarrow> server_op list \<Rightarrow> player_server \<Rightarrow> player_server" where
  "server_run E ops s = fold (exec_server_op E) ops s"

context server_network
begin

lemma exec_server_op_keeps:
  assumes "\<And>s n. I s \<Longrightarrow> I (s\<lparr>mHeartbeatFrequency := n\<rparr>)" and "I s"
  shows "I (exec_server_op E p s)"
  using assms
  by (cases p) (simp_all add: serving.exec_op_keeps setHeartbeatFrequency_def keep_counter net_listen
      net_shutdown net_broadcast net_iterate)

lemma server_run_keeps:
  assumes "\<And>s n. I s \<Longrightarrow> I (s\<lparr>mHeartbeatFrequency := n\<rparr>)" and "I s"
  shows "I (server_run E ops s)"
  using assms(2) unfolding server_run_def
  by (induction ops arbitrary: s) (simp_all add: exec_server_op_keeps assms(1))

text \<open>Construction and destruction, each around the player's own.\<close>

lemma ctor_keeps:
  assumes "\<And>s n. I s \<Longrightarrow> I (s\<lparr>mHeartbeatFrequency := n\<rparr>)"
    and "I ((Player_ctor E s)\<lparr>ps_server := new_server, ps_mNetClock := None, mNetProvider := None\<rparr>)"
  shows "I (PlayerServer_ctor E address port s)"
proof -
  define t where "t = (Player_ctor E s)\<lparr>ps_server := new_server, ps_mNetClock := None, mNetProvider := None\<rparr>"
  define u where "u = t\<lparr>mHeartbeatCounter := 0, mHeartbeatFrequency := 30,
    mPendingStateSeek := - 1, mPendingState := GST_STATE_NULL, mPendingCurrentTime := GST_CLOCK_TIME_NONE\<rparr>"
  have "I u" unfolding u_def
    by (intro keep_counter keep_state_seek keep_pending_state keep_current assms(1))
      (simp add: t_def assms(2))
  then have "I (snd (listen E player_server_class address port u))" by (rule net_listen)
  moreover have "u = (Player_ctor E s)\<lparr>ps_server := new_server, ps_mNetClock := None, mNetProvider := None,
    mHeartbeatCounter := 0, mHeartbeatFrequency := 30, mPendingStateSeek := - 1,
    mPendingState := GST_STATE_NULL, mPendingCurrentTime := GST_CLOCK_TIME_NONE\<rparr>"
    by (simp add: u_def t_def)
  ultimately show ?thesis by (simp add: PlayerServer_ctor_def split_beta Let_def keep_quiet)
qed

end

context server_effects
begin

lemma dtor_keeps: "I s \<Longrightarrow> I (PlayerServer_dtor E s)"
  by (simp add: PlayerServer_dtor_def Player_dtor_def plain.close_keeps Server_dtor_keeps)

end

section \<open>The published clock\<close>

definition server_held :: "player_server \<Rightarrow> clock_kind \<Rightarrow> nat \<Rightarrow> int" where
  "server_held s k p = count_ref (K_clock, ps_mNetClock s) k p + count_ref (K_provider, mNetProvider s) k p"

definition server_clock_ok :: "env \<Rightarrow> player_server \<Rightarrow> bool" where
  "server_clock_ok E s \<longleftrightarrow> clock_lawful E (trace s) \<and>
     (\<forall>k p. clock_balance E (trace s) k p = server_held s k p)"

lemma release_player_server_simps [simp]:
  "ps_mNetClock (release f p s) = ps_mNetClock s" "mNetProvider (release f p s) = mNetProvider s"
  by (simp_all add: release_def)

lemma server_clock_neutral: "server_clock_ok E s \<Longrightarrow> clock_neutral e \<Longrightarrow> server_clock_ok E (emit e s)"
  by (simp add: server_clock_ok_def server_held_def)

lemma server_clock_effects: "player_effects E (server_clock_ok E)"
  by unfold_locales
    (simp_all add: server_clock_ok_def server_held_def quiet_clock_neutral Player_reset_def,
     simp_all add: onPreroll_def onSample_def processSample_def ask_def Let_def read_caps_def
       split: option.split caps.split)

interpretation server_clocks: server_effects E "server_clock_ok E" for E
proof (rule server_effectsI [OF server_clock_effects])
  show "server_clock_ok E (s\<lparr>ps_server := c\<rparr>)" if "server_clock_ok E s" for s c
    using that by (simp add: server_clock_ok_def server_held_def)
  show "server_members_axioms E (server_clock_ok E)"
    unfolding server_members_axioms_def
    by (auto simp: server_clock_ok_def server_held_def clock_balance.simps(2) clock_lawful.simps(2))
qed (simp add: server_clock_neutral)

text \<open>Only \<open>setupClock\<close> and \<open>clearClock\<close> touch the clock; a change of state does not.\<close>

definition no_clock :: "player_server \<Rightarrow> bool" where
  "no_clock s \<longleftrightarrow> ps_mNetClock s = None \<and> mNetProvider s = None"

lemma no_clock_queries:
  "no_clock (snd (getTime E s)) = no_clock s" "no_clock (snd (queryState E s)) = no_clock s"
  by (simp_all add: no_clock_def getTime_def queryState_def ask_def Let_def split: prod.split option.split)

lemma no_clock_setTime: "no_clock (server_setTime E t s) = no_clock s"
  using no_clock_queries(2) unfolding server_setTime_def ask_def Let_def split_beta
  by (simp add: no_clock_def)

lemma no_clock_setState: "no_clock s \<Longrightarrow> no_clock (setState E (player_server_vtable E) st s)"
proof -
  have upd: "no_clock (s\<lparr>mPendingStateSeek := t\<rparr>) = no_clock s" "no_clock (emit e s) = no_clock s"
    for t e and s :: player_server by (simp_all add: no_clock_def)
  have "no_clock (server_onBeforeSetState E st s) = no_clock s" for s
    by (simp add: server_onBeforeSetState_def split_beta Let_def upd no_clock_queries)
  moreover have "no_clock (server_onStateChanged E st s) = no_clock s" for st s
    by (simp add: server_onStateChanged_def split_beta Let_def upd no_clock_queries no_clock_setTime)
  ultimately show "no_clock s \<Longrightarrow> no_clock (setState E (player_server_vtable E) st s)"
    by (simp add: setState_def split_beta Let_def upd)
qed

lemma close_clears_clock:
  assumes "mPipeline s \<noteq> None"
  shows "no_clock (close E (player_server_vtable E) s)"
proof -
  have "no_clock (server_clearClock s)"
    using assms by (auto simp: server_clearClock_def no_clock_def Let_def)
  then have "no_clock (stop E (player_server_vtable E) (server_clearClock s))"
    by (simp add: stop_def no_clock_setState)
  then show ?thesis
    by (simp add: close_def Let_def server_onBeforeClose_def no_clock_def Player_reset_def)
qed

interpretation server_no_clock_calls: server_net E' "clock_count E k p n" for E' E k p n
  by unfold_locales (simp_all add: clock_count_def quiet_clock_neutral)

lemma dtor_keeps_clocks:
  "clock_balance E (trace (PlayerServer_dtor E' s)) k p = clock_balance E (trace s) k p"
proof -
  have "clock_count E k p (clock_balance E (trace s) k p) s" by (simp add: clock_count_def)
  then have "clock_count E k p (clock_balance E (trace s) k p) (Server_dtor E' player_server_class s)"
    by (rule server_no_clock_calls.Server_dtor_keeps)
  then show ?thesis
    using no_clock_calls.plain.close_keeps [of E k p _ "Server_dtor E' player_server_class s" E']
    by (simp add: PlayerServer_dtor_def Player_dtor_def clock_count_def)
qed

section \<open>The properties\<close>

text \<open>The storage a server player is constructed in, and a run that opens one and plays.\<close>

definition server_storage :: player_server where
  "server_storage = player.extend fresh_storage
     \<lparr>ps_server = new_server, ps_mNetClock = None, mNetProvider = None, mPendingCurrentTime = 0,
      mPendingStateSeek = 0, mPendingState = 0, mHeartbeatCounter = 0, mHeartbeatFrequency = 0\<rparr>"

definition demo_server_ops :: "server_op list" where
  "demo_server_ops = [Server_player (Op_open ''a.mp4'' 640 480 ''BGRA'')]"

lemma trace_server_storage: "trace server_storage = []"
  by (simp add: server_storage_def player.defs fresh_storage_def)

lemma fresh_server_player:
  assumes "trace s = []"
  shows "slot_ok (PlayerServer_ctor E a p s)" "seek_ok E (PlayerServer_ctor E a p s)"
    "owner_ok E (PlayerServer_ctor E a p s)" "server_clock_ok E (PlayerServer_ctor E a p s)"
proof -
  note fresh = fresh_player [OF assms, of E] quiet_clock_history [OF Player_ctor_trace [OF assms, of E]]
  show "slot_ok (PlayerServer_ctor E a p s)"
    by (rule server_slot.ctor_keeps) (use fresh in \<open>simp_all add: slot_ok_def\<close>)
  show "seek_ok E (PlayerServer_ctor E a p s)"
    by (rule server_seeks.ctor_keeps) (use fresh in \<open>auto simp: seek_ok_def\<close>)
  show "owner_ok E (PlayerServer_ctor E a p s)"
    by (rule server_ownership.ctor_keeps) (use fresh in simp_all)
  show "server_clock_ok E (PlayerServer_ctor E a p s)"
    by (rule server_clocks.ctor_keeps) (use fresh in \<open>simp_all add: server_clock_ok_def server_held_def\<close>)
qed

lemma server_run_ok:
  assumes "trace s = []" and "t = server_run E ops (PlayerServer_ctor E a p s)"
  shows "slot_ok t" "seek_ok E t" "owner_ok E t" "server_clock_ok E t"
proof -
  note fresh = fresh_server_player [OF assms(1)]
  show "slot_ok t" unfolding assms(2)
    by (rule server_slot.server_run_keeps [OF _ fresh(1)]) (simp add: slot_ok_def)
  show "seek_ok E t" unfolding assms(2)
    by (rule server_seeks.server_run_keeps [OF _ fresh(2)]) (auto simp: seek_ok_def)
  show "owner_ok E t" unfolding assms(2)
    by (rule server_ownership.server_run_keeps [OF _ fresh(3)]) simp
  show "server_clock_ok E t" unfolding assms(2)
    by (rule server_clocks.server_run_keeps [OF _ fresh(4)]) (simp add: server_clock_ok_def server_held_def)
qed



text \<open>C31: the published clock is given back by \<open>close\<close> and by nothing else. Closing an open server player
  gives back its clock and its provider; destroying it instead leaks both, because by the time
  the base class closes the pipeline its destructor no longer reaches \<open>onBeforeClose\<close>.\<close>

theorem clock_given_back_by_close_only:
  assumes "trace s = []" and "t = server_run E ops (PlayerServer_ctor E address port s)"
    and "mPipeline t \<noteq> None"
  shows "clock_balance E (trace (close E (player_server_vtable E) t)) k p = 0 \<and>
    clock_balance E (trace (PlayerServer_dtor E t)) k p = server_held t k p"
proof -
  have "server_clock_ok E (close E (player_server_vtable E) t)"
    by (rule server_clocks.serving.close_keeps) (rule server_run_ok(4) [OF assms(1,2)])
  then show ?thesis
    using close_clears_clock [OF assms(3), of E] server_run_ok(4) [OF assms(1,2)]
    by (simp add: server_clock_ok_def server_held_def no_clock_def dtor_keeps_clocks)
qed
lemma server_setupClock_pipeline: "mPipeline (server_setupClock E s) = mPipeline s"
  by (simp add: server_setupClock_def server_clearClock_def ask_def Let_def)

theorem clock_given_back_by_close_only_witness:
  "\<exists>t. t = server_run calm demo_server_ops (PlayerServer_ctor calm ''0.0.0.0'' 5000 server_storage) \<and>
    mPipeline t \<noteq> None \<and>
    clock_balance calm (trace (close calm (player_server_vtable calm) t)) K_clock 10 = 0 \<and>
    clock_balance calm (trace (PlayerServer_dtor calm t)) K_clock 10 = server_held t K_clock 10"
proof -
  obtain t where t: "t = server_run calm demo_server_ops (PlayerServer_ctor calm ''0.0.0.0'' 5000 server_storage)"
    by blast
  have p: "mPipeline t \<noteq> None"
    by (simp add: t server_run_def demo_server_ops_def calm_open_pipeline server_setupClock_pipeline)
  from clock_given_back_by_close_only [OF trace_server_storage t p, of K_clock 10] p t
  show ?thesis by blast
qed

section \<open>The heartbeat period\<close>

text \<open>What the heartbeat depends on.\<close>

definition beat :: "player_server \<Rightarrow> uint32 \<times> uint32 \<times> ptr" where
  "beat s = (mHeartbeatCounter s, mHeartbeatFrequency s, mPipeline s)"

lemma beat_simps [simp]:
  "beat (emit e s) = beat s" "beat (s\<lparr>ps_server := c\<rparr>) = beat s" "beat (s\<lparr>mVolume := v\<rparr>) = beat s"
  "beat (s\<lparr>mTime := v\<rparr>) = beat s" "beat (s\<lparr>mPendingSeek := v\<rparr>) = beat s"
  "beat (s\<lparr>mPendingState := x\<rparr>) = beat s" "beat (s\<lparr>mPendingCurrentTime := t\<rparr>) = beat s"
  by (simp_all add: beat_def)

interpretation beat_net: server_net E "\<lambda>s. beat s = b" for E b
  by unfold_locales simp_all

lemma beat_dispatch: "beat (dispatchHeartbeat E s) = beat s"
proof -
  have "beat (snd (heartbeat_packet E s)) = beat s"
    by (simp add: heartbeat_packet_def getTime_def getVolume_def ask_def Let_def split: option.split)
  then show ?thesis
    using beat_net.broadcast_keeps [of "snd (heartbeat_packet E s)" "beat s" E]
    by (simp add: dispatchHeartbeat_def split_beta Let_def)
qed

lemma beat_pending: "beat (pending_seek_step E s) = beat s"
  by (simp add: pending_seek_step_def perform_seek_def ask_def Let_def split: option.split)

text \<open>Whether the next update of an open player dispatches a heartbeat.\<close>

definition heartbeat_due :: "player_server \<Rightarrow> bool" where
  "heartbeat_due s \<longleftrightarrow> mHeartbeatFrequency s < mHeartbeatCounter s"

lemma beat_update:
  assumes "mPipeline s = Some p"
  shows "beat (server_onBeforeUpdate E s) =
    (if heartbeat_due s then 1 else mHeartbeatCounter s + 1, mHeartbeatFrequency s, Some p)"
proof -
  have i: "beat (Server_iterate E player_server_class s) = beat s"
    unfolding Server_iterate_def by (rule beat_net.iterate_loop_keeps) simp
  define t where "t = Server_iterate E player_server_class s"
  have t: "mHeartbeatCounter t = mHeartbeatCounter s" "mHeartbeatFrequency t = mHeartbeatFrequency s"
    "mPipeline t = Some p"
    using i assms by (simp_all add: t_def beat_def)
  have d: "mHeartbeatFrequency (dispatchHeartbeat E t) = mHeartbeatFrequency s"
    "mPipeline (dispatchHeartbeat E t) = Some p"
    using beat_dispatch [of E t] t by (simp_all add: beat_def)
  have "beat (heartbeat_step E t) =
    (if heartbeat_due s then 0 else mHeartbeatCounter s, mHeartbeatFrequency s, Some p)"
    using t d by (simp add: heartbeat_step_def heartbeat_due_def beat_def)
  then have "beat (pending_seek_step E (heartbeat_step E t)) =
    (if heartbeat_due s then 0 else mHeartbeatCounter s, mHeartbeatFrequency s, Some p)"
    by (simp add: beat_pending)
  then show ?thesis using assms
    by (simp add: server_onBeforeUpdate_def t_def [symmetric] beat_def split: if_splits)
qed

text \<open>The counter after \<open>n\<close> updates, as a number.\<close>

definition counter_after :: "nat \<Rightarrow> nat \<Rightarrow> nat" where
  "counter_after f n = (if n = 0 then 0 else Suc ((n - 1) mod Suc f))"

lemma counter_after_Suc:
  "counter_after f (Suc n) = (if counter_after f n = Suc f then 1 else Suc (counter_after f n))"
proof (cases n)
  case (Suc m)
  then show ?thesis by (simp add: counter_after_def mod_Suc)
qed (simp add: counter_after_def)

lemma counter_after_le: "counter_after f n \<le> Suc f"
  by (simp add: counter_after_def less_Suc_eq_le [symmetric])

lemma counter_after_due: "counter_after f n = Suc f \<longleftrightarrow> 0 < n \<and> Suc f dvd n"
proof (cases n)
  case (Suc m)
  have "m mod Suc f = f \<longleftrightarrow> Suc m mod Suc f = 0" by (simp add: mod_Suc)
  then show ?thesis using Suc by (simp add: counter_after_def dvd_eq_mod_eq_0)
qed (simp add: counter_after_def)

lemma Suc_unat_bound:
  fixes x :: uint32
  assumes "x \<noteq> - 1"
  shows "Suc (unat x) < 2 ^ 32"
proof -
  have "unat x < 2 ^ 32" using unsigned_less [of x, where 'a = nat] by simp
  moreover have "unat x \<noteq> 2 ^ 32 - 1"
  proof
    assume "unat x = 2 ^ 32 - 1"
    then have "(of_nat (unat x) :: uint32) = of_nat (2 ^ 32 - 1)" by simp
    then show False using assms by simp
  qed
  ultimately show ?thesis by simp
qed

lemma updates_counter:
  assumes "mPipeline s = Some p" and "mHeartbeatCounter s = 0" and "f = unat (mHeartbeatFrequency s)"
    and "mHeartbeatFrequency s \<noteq> - 1"
  shows "beat ((server_onBeforeUpdate E ^^ n) s) =
    (of_nat (counter_after f n), mHeartbeatFrequency s, Some p)"
proof (induction n)
  case 0
  then show ?case using assms by (simp add: beat_def counter_after_def)
next
  case (Suc n)
  let ?t = "(server_onBeforeUpdate E ^^ n) s"
  have t: "mHeartbeatCounter ?t = of_nat (counter_after f n)" "mHeartbeatFrequency ?t = mHeartbeatFrequency s"
    "mPipeline ?t = Some p"
    using Suc by (simp_all add: beat_def)
  have f: "Suc f < 2 ^ 32" unfolding assms(3) using assms(4) by (rule Suc_unat_bound)
  have c: "unat (of_nat (counter_after f n) :: uint32) = counter_after f n"
    using counter_after_le [of f n] f by (simp add: unat_of_nat)
  have "heartbeat_due ?t \<longleftrightarrow> f < counter_after f n"
    by (simp only: heartbeat_due_def t word_less_nat_alt c assms(3) [symmetric])
  then have "heartbeat_due ?t \<longleftrightarrow> counter_after f n = Suc f" using counter_after_le [of f n] by auto
  then show ?case using beat_update [OF t(3), of E] by (simp add: counter_after_Suc t)
qed

lemma updates_frequency:
  assumes "mPipeline s = Some p"
  shows "mHeartbeatFrequency ((server_onBeforeUpdate E ^^ n) s) = mHeartbeatFrequency s \<and>
    mPipeline ((server_onBeforeUpdate E ^^ n) s) = Some p"
proof (induction n)
  case (Suc n)
  then show ?case using beat_update [of "(server_onBeforeUpdate E ^^ n) s" p E] by (simp add: beat_def)
qed (simp add: assms)

lemma updates_due:
  assumes "mPipeline s = Some p" and "mHeartbeatCounter s = 0"
  shows "heartbeat_due ((server_onBeforeUpdate E ^^ n) s) \<longleftrightarrow>
    mHeartbeatFrequency s \<noteq> - 1 \<and> 0 < n \<and> Suc (unat (mHeartbeatFrequency s)) dvd n"
proof (cases "mHeartbeatFrequency s = - 1")
  case True
  then show ?thesis using updates_frequency [OF assms(1), where E = E and n = n] by (simp add: heartbeat_due_def)
next
  case False
  define f where "f = unat (mHeartbeatFrequency s)"
  have "Suc f < 2 ^ 32" unfolding f_def using False by (rule Suc_unat_bound)
  then have c: "unat (of_nat (counter_after f n) :: uint32) = counter_after f n"
    using counter_after_le [of f n] by (simp add: unat_of_nat)
  have "heartbeat_due ((server_onBeforeUpdate E ^^ n) s) \<longleftrightarrow> counter_after f n = Suc f"
    using updates_counter [OF assms f_def False, where E = E and n = n] counter_after_le [of f n] c
    by (auto simp: heartbeat_due_def beat_def word_less_nat_alt f_def [symmetric])
  then show ?thesis using False by (simp add: counter_after_due f_def)
qed

lemma onBeforeUpdate_heartbeat:
  assumes "mPipeline s = Some p"
  shows "\<exists>u. Server_iterate E player_server_class s = u \<and> server_onBeforeUpdate E s =
    (let v = pending_seek_step E (if heartbeat_due s then (dispatchHeartbeat E u)\<lparr>mHeartbeatCounter := 0\<rparr> else u)
     in v\<lparr>mHeartbeatCounter := mHeartbeatCounter v + 1\<rparr>)"
proof -
  have "beat (Server_iterate E player_server_class s) = beat s"
    unfolding Server_iterate_def by (rule beat_net.iterate_loop_keeps) simp
  then have "heartbeat_step E (Server_iterate E player_server_class s) =
    (if heartbeat_due s then (dispatchHeartbeat E (Server_iterate E player_server_class s))\<lparr>mHeartbeatCounter := 0\<rparr>
     else Server_iterate E player_server_class s)"
    by (simp add: heartbeat_step_def heartbeat_due_def beat_def)
  then show ?thesis using assms by (simp add: server_onBeforeUpdate_def Let_def)
qed

text \<open>C23: the heartbeat period. From a counter of zero, as the constructor and a change of frequency leave
  it, an update of an open server player dispatches a heartbeat, between serving the network and
  the pending seek, exactly when the number of updates before it is a positive multiple of the
  frequency plus one; at the largest frequency never, the counter wraps before it exceeds it.\<close>

theorem heartbeat_period:
  assumes "mPipeline s = Some p" and "mHeartbeatCounter s = 0"
    and "t = (server_onBeforeUpdate E ^^ n) s"
  shows "\<exists>u. u = Server_iterate E player_server_class t \<and> server_onBeforeUpdate E t =
    (let v = pending_seek_step E
       (if mHeartbeatFrequency s \<noteq> - 1 \<and> 0 < n \<and> Suc (unat (mHeartbeatFrequency s)) dvd n
        then (dispatchHeartbeat E u)\<lparr>mHeartbeatCounter := 0\<rparr> else u)
     in v\<lparr>mHeartbeatCounter := mHeartbeatCounter v + 1\<rparr>)"
proof -
  have "mPipeline t = Some p" using updates_frequency [OF assms(1), where E = E and n = n] by (simp add: assms(3))
  then show ?thesis
    using onBeforeUpdate_heartbeat [of t p E] updates_due [OF assms(1,2), where E = E and n = n] by (simp add: assms(3))
qed

theorem heartbeat_period_witness:
  "\<exists>s t. s = server_storage\<lparr>mPipeline := Some 1, mHeartbeatFrequency := 30\<rparr> \<and>
    t = (server_onBeforeUpdate calm ^^ 31) s \<and>
    (\<exists>u. u = Server_iterate calm player_server_class t \<and> server_onBeforeUpdate calm t =
      (let v = pending_seek_step calm ((dispatchHeartbeat calm u)\<lparr>mHeartbeatCounter := 0\<rparr>)
       in v\<lparr>mHeartbeatCounter := mHeartbeatCounter v + 1\<rparr>))"
proof -
  define s where "s = server_storage\<lparr>mPipeline := Some 1, mHeartbeatFrequency := 30\<rparr>"
  define t where "t = (server_onBeforeUpdate calm ^^ 31) s"
  have "mPipeline s = Some 1" "mHeartbeatCounter s = 0" "mHeartbeatFrequency s = 30"
    by (simp_all add: s_def server_storage_def player.defs)
  from heartbeat_period [OF this(1,2) t_def] this(3)
  have "\<exists>u. u = Server_iterate calm player_server_class t \<and> server_onBeforeUpdate calm t =
      (let v = pending_seek_step calm ((dispatchHeartbeat calm u)\<lparr>mHeartbeatCounter := 0\<rparr>)
       in v\<lparr>mHeartbeatCounter := mHeartbeatCounter v + 1\<rparr>)"
    by simp
  then show ?thesis using s_def t_def by blast
qed

end
