(* ===== verification/Net_Ownership.thy ===== *)
theory Net_Ownership
  imports Net_Sockets Player_Client_Properties Player_Server_Properties
begin

text \<open>
  The sockets, addresses, contexts, sources and services of the networked players, over their whole
  lives. The methods of \<open>Player\<close> make no call to GIO, so only the network part moves the balance of
  these references: its invariants are instances of \<open>client_network\<close> and \<open>server_network\<close>, next to
  those of the pipeline and of the clock.
\<close>

section \<open>The player makes no call to GIO\<close>

definition net_count :: "env \<Rightarrow> (net_kind \<Rightarrow> nat \<Rightarrow> int) \<Rightarrow> bool \<Rightarrow> 'a world_scheme \<Rightarrow> bool" where
  "net_count E b l s \<longleftrightarrow> (\<forall>k p. net_balance E (trace s) k p = b k p) \<and> net_lawful E (trace s) = l"

lemma quiet_net_events:
  "quiet e \<Longrightarrow> net_acquires E e h = (K_socket, None)" "quiet e \<Longrightarrow> net_drops e = (K_socket, None)"
  "quiet e \<Longrightarrow> net_needs e = []"
  by (cases e rule: quiet.cases; simp)+

lemma net_frames [simp]:
  "net_balance E (trace (read_caps c s)) k p = net_balance E (trace s) k p"
  "net_lawful E (trace (read_caps c s)) = net_lawful E (trace s)"
  "net_balance E (trace (release f q s)) k p = net_balance E (trace s) k p"
  "net_lawful E (trace (release f q s)) = net_lawful E (trace s)"
  using trace_read_caps [of c s] by (auto simp: release_def)

lemma net_pulls [simp]:
  "net_balance E (trace (onPreroll E' s)) k p = net_balance E (trace s) k p"
  "net_lawful E (trace (onPreroll E' s)) = net_lawful E (trace s)"
  "net_balance E (trace (onSample E' s)) k p = net_balance E (trace s) k p"
  "net_lawful E (trace (onSample E' s)) = net_lawful E (trace s)"
  by (simp_all add: onPreroll_def onSample_def processSample_def ask_def Let_def split: option.split)

interpretation no_net_calls: player_effects E' "net_count E b l" for E' E b l
  by unfold_locales (simp_all add: quiet_net_events net_count_def Player_reset_def)

lemma quiet_net_history:
  "list_all (\<lambda>e. quiet e \<and> fits None None e) h \<Longrightarrow> net_lawful E h \<and> net_balance E h k p = 0"
  by (induction h) (simp_all add: quiet_net_events)

section \<open>The client player\<close>

text \<open>\<open>client_onMessage\<close> changes the player only.\<close>

definition pc_undisturbed :: "env \<Rightarrow> (net_kind \<Rightarrow> nat \<Rightarrow> int) \<Rightarrow> bool \<Rightarrow> client \<Rightarrow> player_client \<Rightarrow> bool" where
  "pc_undisturbed E b l c s \<longleftrightarrow> net_count E b l s \<and> pc_client s = c"

lemma release_pc_client [simp]: "pc_client (release f p s) = pc_client s"
  by (simp add: release_def)

lemma pc_client_pulls [simp]:
  "pc_client (read_caps c s) = pc_client s" "pc_client (onPreroll E s) = pc_client s" "pc_client (onSample E s) = pc_client s"
  by (simp_all add: onPreroll_def onSample_def processSample_def ask_def Let_def read_caps_def
      split: option.split caps.split)

lemma pc_undisturbed_effects: "player_effects E' (pc_undisturbed E b l c)"
  by unfold_locales
    (simp_all add: pc_undisturbed_def net_count_def quiet_net_events Player_reset_def)

interpretation pc_undisturbed: client_members E' "pc_undisturbed E b l c" for E' E b l c
  by (intro client_members.intro pc_undisturbed_effects)
    (auto simp: client_members_axioms_def pc_undisturbed_def net_count_def)

lemma client_onMessage_undisturbed:
  "pc_client (client_onMessage E m s) = pc_client s"
  "net_balance E' (trace (client_onMessage E m s)) k p = net_balance E' (trace s) k p"
  "net_lawful E' (trace (client_onMessage E m s)) = net_lawful E' (trace s)"
  using pc_undisturbed.onMessage_keeps [of E' "net_balance E' (trace s)" "net_lawful E' (trace s)" "pc_client s" s E m]
  by (simp_all add: pc_undisturbed_def net_count_def)

interpretation pc_hook: client_hook "player_client_class E" E for E
  by unfold_locales (simp_all add: client_onMessage_undisturbed)

lemmas pc_net =
  client_object.connect_net [OF pc_client.client_object_axioms]
  client_object.disconnect_net [OF pc_client.client_object_axioms]
  client_object.sendToServer_net [OF pc_client.client_object_axioms] pc_hook.iterate_net

text \<open>Every life of a client player.\<close>

definition client_net_ok :: "env \<Rightarrow> player_client \<Rightarrow> bool" where
  "client_net_ok E s \<longleftrightarrow> client_net E (binds E) (player_client_class E) (K_socket, None) s"

lemma client_net_ok_iff:
  "client_net_ok E s \<longleftrightarrow>
     client_ok (pc_client s) \<and>
     (binds E \<longrightarrow> \<not> mConnected (pc_client s) \<longrightarrow>
        mReceiveSocket (pc_client s) = None \<and> mListenAddress (pc_client s) = None) \<and>
     net_lawful E (trace s) \<and> accounts E (exact (binds E)) (trace s) (client_holds (pc_client s))"
  by (simp add: client_net_ok_def client_net_def Let_def)

lemma accounts_same: "(\<And>k p. net_balance E h k p = net_balance E h' k p) \<Longrightarrow> accounts E X h = accounts E X h'"
  by (intro ext) (simp add: accounts_def)

lemma client_net_effects: "player_effects E (client_net_ok E)"
  by unfold_locales
    (simp_all add: client_net_ok_iff accounts_def quiet_net_events Player_reset_def)

interpretation client_nets: client_network E "client_net_ok E" for E
proof (intro client_network.intro client_members.intro client_net_effects)
  show "client_members_axioms E (client_net_ok E)"
    by (auto simp: client_members_axioms_def client_net_ok_iff accounts_def)
  show "client_network_axioms E (client_net_ok E)"
    unfolding client_network_axioms_def client_net_ok_def
    by (simp add: pc_net)
qed

lemma client_net_run:
  assumes "trace s = []" and "t = client_run E ops (PlayerClient_ctor E address port s)"
  shows "client_net_ok E t"
proof -
  have "net_count E (\<lambda>k p. 0) True (Player_ctor E s)"
    using quiet_net_history [OF Player_ctor_trace [OF assms(1), of E]] by (simp add: net_count_def)
  then show ?thesis unfolding assms(2)
    by (intro client_nets.client_run_keeps client_nets.ctor_keeps)
      (simp add: client_net_ok_iff net_count_def client_ok_def new_client_def accounts_def client_holds_def)
qed

lemma client_net_dtor:
  assumes "client_net_ok E s"
  shows "net_lawful E (trace (PlayerClient_dtor E s))"
    "exact (binds E) k \<Longrightarrow> net_balance E (trace (PlayerClient_dtor E s)) k p = 0"
proof -
  let ?u = "Client_dtor (player_client_class E) s"
  have u: "client_net_ok E ?u" using assms client_nets.net_disconnect by (simp add: Client_dtor_def)
  have "\<not> mConnected (pc_client ?u)"
    using pc_client.disconnect_not_connected [of E s] by (auto simp: Client_dtor_def isConnected_def)
  then have z: "exact (binds E) k \<Longrightarrow> client_holds (pc_client ?u) k p = 0"
    using u by (auto simp: client_net_ok_iff client_ok_def client_holds_def exact_def)
  have "net_count E (net_balance E (trace ?u)) (net_lawful E (trace ?u)) (PlayerClient_dtor E s)"
    unfolding PlayerClient_dtor_def Player_dtor_def
    by (rule no_net_calls.plain.close_keeps) (simp add: net_count_def)
  then have b: "net_balance E (trace (PlayerClient_dtor E s)) k p = net_balance E (trace ?u) k p"
    "net_lawful E (trace (PlayerClient_dtor E s)) = net_lawful E (trace ?u)" by (simp_all add: net_count_def)
  show "net_lawful E (trace (PlayerClient_dtor E s))" using b(2) u by (simp add: client_net_ok_iff)
  show "exact (binds E) k \<Longrightarrow> net_balance E (trace (PlayerClient_dtor E s)) k p = 0"
    using b(1) u z by (simp add: client_net_ok_iff accounts_def)
qed


lemma binds_calm: "binds calm"
  by (simp add: binds_def)


section \<open>The server player\<close>

definition ps_net_ok :: "env \<Rightarrow> player_server \<Rightarrow> bool" where
  "ps_net_ok E s \<longleftrightarrow> server_net_ok E player_server_class s"

lemma ps_net_ok_iff:
  "ps_net_ok E s \<longleftrightarrow>
     distinct (map fst (mEndpoints (ps_server s))) \<and> net_lawful E (trace s) \<and>
     accounts E counted (trace s) (server_holds (ps_server s))"
  by (simp add: ps_net_ok_def server_net_ok_def Let_def)

lemma release_ps_server [simp]: "ps_server (release f p s) = ps_server s"
  by (simp add: release_def)

lemma ps_server_pulls [simp]: "ps_server (onPreroll E s) = ps_server s" "ps_server (onSample E s) = ps_server s"
  by (simp_all add: onPreroll_def onSample_def processSample_def ask_def Let_def read_caps_def
      split: option.split caps.split)

lemma ps_net_effects: "player_effects E (ps_net_ok E)"
  by unfold_locales
    (simp_all add: ps_net_ok_iff accounts_def quiet_net_events Player_reset_def)

interpretation ps_hook: server_hook player_server_class E for E
  by unfold_locales simp_all

lemmas ps_net =
  server_object.broadcast_net [OF ps_server.server_object_axioms]
  server_object.listen_net [OF ps_server.server_object_axioms]
  server_object.shutdown_net [OF ps_server.server_object_axioms] ps_hook.iterate_net

interpretation server_nets: server_network E "ps_net_ok E" for E
proof (intro server_network.intro server_members.intro ps_net_effects)
  show "server_members_axioms E (ps_net_ok E)"
    by (auto simp: server_members_axioms_def ps_net_ok_iff accounts_def)
  show "server_network_axioms E (ps_net_ok E)"
    unfolding server_network_axioms_def ps_net_ok_def by (simp add: ps_net)
qed

lemma server_net_run:
  assumes "trace s = []" and "t = server_run E ops (PlayerServer_ctor E address port s)"
  shows "ps_net_ok E t"
proof -
  have "net_count E (\<lambda>k p. 0) True (Player_ctor E s)"
    using quiet_net_history [OF Player_ctor_trace [OF assms(1), of E]] by (simp add: net_count_def)
  then have "ps_net_ok E (PlayerServer_ctor E address port s)"
    by (intro server_nets.ctor_keeps)
      (simp_all add: ps_net_ok_iff net_count_def new_server_def accounts_def server_holds_def endpoints_hold_def)
  then show ?thesis unfolding assms(2)
    by (intro server_nets.server_run_keeps) (simp add: ps_net_ok_iff)
qed

lemma server_dtor_net:
  assumes "ps_net_ok E s" and "\<And>h xs. mset (unordered E h xs) = mset xs"
  shows "net_lawful E (trace (PlayerServer_dtor E s)) \<and>
    (k \<noteq> K_service \<longrightarrow> net_balance E (trace (PlayerServer_dtor E s)) k p = 0)"
proof -
  let ?u = "Server_dtor E player_server_class s"
  have "net_count E (net_balance E (trace ?u)) (net_lawful E (trace ?u)) (PlayerServer_dtor E s)"
    unfolding PlayerServer_dtor_def Player_dtor_def
    by (rule no_net_calls.plain.close_keeps) (simp add: net_count_def)
  then show ?thesis
    using server_object.dtor_net [OF ps_server.server_object_axioms, of E s k p] assms
    by (simp add: net_count_def ps_net_ok_def)
qed

text \<open>C18: the sockets of a server player, over its whole life. In every run of the public methods, whoever
  connects and whatever fails, every call on a socket, an address or a service is made with a
  reference to it held; what is owned of sockets and addresses is exactly what the endpoints in
  the map hold, each endpoint known under one key; and the destructor gives all of them back, in
  whatever order the map is walked.\<close>

theorem server_sockets_accounted:
  assumes "trace s = []" and "t = server_run E ops (PlayerServer_ctor E address port s)"
    and "\<And>h xs. mset (unordered E h xs) = mset xs" and "d = PlayerServer_dtor E t" and "k \<noteq> K_service"
  shows "net_lawful E (trace t) \<and> net_lawful E (trace d) \<and> distinct (map fst (mEndpoints (ps_server t))) \<and>
    net_balance E (trace t) k p = endpoints_hold (mEndpoints (ps_server t)) k p \<and> net_balance E (trace d) k p = 0"
proof -
  have t: "ps_net_ok E t" by (rule server_net_run [OF assms(1,2)])
  then show ?thesis using server_dtor_net [OF t assms(3), of k p] assms(5) unfolding assms(4)
    by (simp add: ps_net_ok_iff accounts_def counted_def server_holds_def)
qed

text \<open>A server that listens and is connected to once.\<close>

definition one_connection :: env where
  "one_connection = calm\<lparr>g_main_context_pending := (\<lambda>h. hd (tl h) \<noteq> Gio (Context_iteration None) \<and> length h < 20),
     g_main_context_iteration := (\<lambda>_. True)\<rparr>"

definition connected_server :: player_server where
  "connected_server = server_run one_connection [Server_iterate_call]
     (PlayerServer_ctor one_connection ''0.0.0.0'' 5000 server_storage)"

lemma connected_server_endpoints:
  "mEndpoints (ps_server connected_server) =
     [(''10.0.0.2'', \<lparr>mEndpointSocket = Some 11, mEndpointAddress = Some 12\<rparr>)]"
  by code_simp

theorem server_sockets_accounted_witness:
  "\<exists>d. d = PlayerServer_dtor one_connection connected_server \<and>
    net_lawful one_connection (trace d) \<and>
    net_balance one_connection (trace connected_server) K_socket 11 = 1 \<and>
    net_balance one_connection (trace d) K_socket 11 = 0"
proof -
  obtain d where d: "d = PlayerServer_dtor one_connection connected_server" by blast
  have "mset (unordered one_connection h xs) = mset xs" for h xs by (simp add: one_connection_def)
  from server_sockets_accounted [OF trace_server_storage connected_server_def this d, of K_socket 11] d
  show ?thesis by (auto simp: connected_server_endpoints endpoints_hold_def endpoint_holds_def)
qed

end
