(* ===== verification/Network_Seek.thy ===== *)
theory Network_Seek
  imports Player_Server_Properties
begin

text \<open>
  The seek of a server player over its whole course: recorded by \<open>setTime\<close>, carried out by the updates
  that find the pipeline in READY, spoilt by an ASYNC_DONE in between, and used to resume where
  the player has been paused.
\<close>

section \<open>Seeking as a whole\<close>

definition seeking_server :: player_server where
  "seeking_server = server_storage\<lparr>mPipeline := Some 1, mDuration := Fin False 10\<rparr>"



text \<open>C32: an ASYNC_DONE in the middle of a network seek makes the server forget the state to return to. While
  the seek waits for READY, the message handler of \<open>Player\<close> takes the pending target for a deferred
  seek of its own and calls \<open>setTime\<close> again, which reads the clock and the state afresh. When the
  pipeline has reached READY by then, READY is what the next update returns to: the base time moves
  and the seek is over, but whatever the player was doing before, it is left in READY.\<close>

theorem async_done_forgets_state:
  assumes "mPipeline s = Some p" and "0 \<le> mPendingSeek s"
    and "h = [Gst (Get_state (Some p)), Clk (Clock_get_time (ps_mNetClock s))] @ trace s"
    and "gst_element_get_state E h = (Change_success, Some GST_STATE_READY)"
    and "t = handle_message E (player_server_vtable E) Msg_async_done s"
    and "0 \<le> mPendingSeek t"
    and "seek_base (mPendingCurrentTime t) (gst_element_get_base_time E (Clk (Get_base_time (Some p)) # h))
      (gst_element_get_base_time E (Clk (Get_base_time (Some p)) # Clk (Get_base_time (Some p)) # h))
      (mPendingSeek t) = Some base"
    and "u = pending_seek_step E t"
  shows "mPendingState t = GST_STATE_READY \<and> trace t = h \<and>
    filter (\<lambda>e. \<not> is_log e) (trace u) =
      [Gst (Set_state (Some p) GST_STATE_READY), Clk (Set_base_time (Some p) base),
       Clk (Get_base_time (Some p)), Clk (Get_base_time (Some p))] @ filter (\<lambda>e. \<not> is_log e) h \<and>
    mPendingSeek u = - 1 \<and> mState u = GST_STATE_READY"
proof -
  have "t = server_setTime E (mPendingSeek s) (s\<lparr>mSeekingLock := False\<rparr>)"
    using assms(2) by (simp add: assms(5) handle_message_async_done)
  then have t: "mPendingState t = GST_STATE_READY" "mState t = GST_STATE_READY" "trace t = h" "mPipeline t = Some p"
    using assms(1,3,4) by (simp_all add: server_setTime_def queryState_def ask_def Let_def)
  then show ?thesis using assms(6,7)
    by (simp add: assms(8) pending_seek_step_def perform_seek_def getState_def ask_def Let_def)
qed

text \<open>A server that was playing and seeks back to its third second.\<close>

definition playing_seek :: player_server where
  "playing_seek = seeking_server\<lparr>mPendingSeek := Fin False 3, mPendingState := GST_STATE_PLAYING\<rparr>"

definition ready_env :: env where
  "ready_env = calm\<lparr>gst_element_get_state := \<lambda>_. (Change_success, Some GST_STATE_READY)\<rparr>"

theorem async_done_forgets_state_witness:
  "\<exists>t. t = handle_message ready_env (player_server_vtable ready_env) Msg_async_done playing_seek \<and>
    mPendingState playing_seek = GST_STATE_PLAYING \<and> mPendingState t = GST_STATE_READY \<and>
    mPendingSeek (pending_seek_step ready_env t) = - 1 \<and>
    mState (pending_seek_step ready_env t) = GST_STATE_READY"
proof -
  define t where "t = handle_message ready_env (player_server_vtable ready_env) Msg_async_done playing_seek"
  have p: "mPipeline playing_seek = Some 1" "0 \<le> mPendingSeek playing_seek"
    by (simp_all add: playing_seek_def seeking_server_def zero_double_def double_order_defs)
  have t: "mPendingSeek t = Fin False 3" "mPendingCurrentTime t = 5000000000"
    using p(2) by (simp_all add: t_def handle_message_async_done server_setTime_def queryState_def ask_def Let_def
        getDuration_def playing_seek_def seeking_server_def ready_env_def clamp_def double_order_defs zero_double_def)
  have "uint (5000000000 - 1000000000 :: uint64) \<le> 2 ^ 50" "(0::rat) \<le> 3"
    "(3::rat) * 1000000000 \<le> of_int (uint (5000000000 - 1000000000 :: uint64)) - 1"
    by simp_all
  from seek_base_bound [OF this] obtain b where "seek_base 5000000000 1000000000 1000000000 (Fin False 3) = Some b"
    by blast
  then have b: "seek_base (mPendingCurrentTime t) (gst_element_get_base_time ready_env g)
      (gst_element_get_base_time ready_env g') (mPendingSeek t) = Some b" for g g'
    by (simp add: t ready_env_def)
  have "0 \<le> mPendingSeek t" by (simp add: t zero_double_def double_order_defs)
  moreover have "gst_element_get_state ready_env g = (Change_success, Some GST_STATE_READY)" for g
    by (simp add: ready_env_def)
  ultimately show ?thesis
    using async_done_forgets_state [OF p HOL.refl _ t_def _ b HOL.refl] t_def
    by (simp add: playing_seek_def)
qed

section \<open>Pausing and resuming\<close>

lemma seconds_nonneg: "0 \<le> i \<Longrightarrow> 0 \<le> int_to_double i / GST_SECOND"
  by (auto simp: int_to_double_def to_double_def GST_SECOND_def zero_double_def double_order_defs Let_def less_le)

text \<open>C25: a paused server player resumes where it was. Pausing records the position of the pipeline; when
  the pipeline reports that it plays again, however much later, a network seek to that position is
  under way, computed from the clock at that moment and returning to PLAYING. It is asked for
  once: the next change to PLAYING starts no other seek.\<close>

theorem server_resumes_where_it_paused:
  assumes "mPipeline s = Some p" and "0 \<le> sint ns"
    and "gst_element_query_position E (Gst (Query_position (Some p)) # trace s) = Some ns"
    and "u = pause E (player_server_vtable E) s"
    and "\<And>h. gst_element_set_state E (Gst (Set_state (Some p) GST_STATE_PAUSED) # h) = Change_async"
    and "v = u\<lparr>trace := h\<rparr>" and "st \<noteq> GST_STATE_PLAYING"
    and "t = handle_message E (player_server_vtable E) (Msg_state_changed (Some p) st GST_STATE_PLAYING) v"
    and "\<And>h. gst_element_get_state E (Gst (Get_state (Some p)) # h) = (Change_success, Some GST_STATE_PLAYING)"
  shows "mPendingStateSeek u = int_to_double (sint ns) / GST_SECOND \<and>
    mPendingSeek t = clamp (int_to_double (sint ns) / GST_SECOND) 0 (getDuration s) \<and>
    mPendingState t = GST_STATE_PLAYING \<and> mState t = GST_STATE_PLAYING \<and>
    trace t = [Gst (Get_state (Some p)), Clk (Clock_get_time (ps_mNetClock s)), Gst (Get_state (Some p))] @ h \<and>
    mPendingCurrentTime t = gst_clock_get_time E (tl (trace t)) \<and>
    handle_message E (player_server_vtable E) (Msg_state_changed (Some p) st GST_STATE_PLAYING) t =
      emit (Gst (Get_state (Some p))) t"
proof -
  let ?pos = "int_to_double (sint ns) / GST_SECOND"
  have u: "mPendingStateSeek u = ?pos" "mPipeline u = Some p" "mDuration u = mDuration s"
      "ps_mNetClock u = ps_mNetClock s"
    using assms(1,3,5)
    by (simp_all add: assms(4) pause_def setState_def server_onBeforeSetState_def getTime_def gst_state_defs
        ask_def Let_def)
  have pos: "0 \<le> mPendingStateSeek v" using seconds_nonneg [OF assms(2)] by (simp add: assms(6) u(1))
  have changed: "handle_message E (player_server_vtable E) (Msg_state_changed (Some p) st GST_STATE_PLAYING) w =
    server_onStateChanged E st (w\<lparr>mState := GST_STATE_PLAYING\<rparr>)" if "mPipeline w = Some p" for w
    using that assms(7) by (simp add: handle_message_def Let_def)
  define w where "w = (emit (Gst (Get_state (Some p))) (v\<lparr>mState := GST_STATE_PLAYING\<rparr>))\<lparr>mState := GST_STATE_PLAYING\<rparr>"
  have v: "mPipeline v = Some p" using u(2) by (simp add: assms(6))
  have "t = (server_setTime E (mPendingStateSeek v) w)\<lparr>mPendingStateSeek := - 1\<rparr>"
    using pos v changed [OF v] assms(9) by (simp add: assms(8) server_onStateChanged_def queryState_def ask_def Let_def w_def)
  then have t: "mPendingSeek t = clamp ?pos 0 (getDuration s)" "mPendingState t = GST_STATE_PLAYING"
      "mState t = GST_STATE_PLAYING" "mPipeline t = Some p" "mPendingStateSeek t = - 1"
      "trace t = [Gst (Get_state (Some p)), Clk (Clock_get_time (ps_mNetClock s)), Gst (Get_state (Some p))] @ h"
      "mPendingCurrentTime t = gst_clock_get_time E (tl (trace t))"
    using u v assms(9)
    by (simp_all add: server_setTime_def queryState_def ask_def Let_def w_def assms(6) getDuration_def)
  have "\<not> 0 \<le> (- 1 :: double)" by (simp add: zero_double_def one_double_def double_order_defs)
  moreover have same: "t\<lparr>mState := GST_STATE_PLAYING\<rparr> = t"
      "(emit (Gst (Get_state (Some p))) t)\<lparr>mState := GST_STATE_PLAYING\<rparr> = emit (Gst (Get_state (Some p))) t"
    using t(3) by (cases t; simp add: emit_def)+
  ultimately have "handle_message E (player_server_vtable E) (Msg_state_changed (Some p) st GST_STATE_PLAYING) t =
      emit (Gst (Get_state (Some p))) t"
    using changed [OF t(4)] t(4,5) assms(9)
    by (simp add: server_onStateChanged_def queryState_def ask_def Let_def)
  then show ?thesis using u(1) t by simp
qed

text \<open>A server that is paused at its third second and plays on.\<close>

definition pausing_env :: env where
  "pausing_env = calm\<lparr>gst_element_query_position := (\<lambda>_. Some 3000000000),
     gst_element_set_state := (\<lambda>_. Change_async),
     gst_element_get_state := (\<lambda>_. (Change_success, Some GST_STATE_PLAYING))\<rparr>"

theorem server_resumes_where_it_paused_witness:
  "\<exists>u v t. u = pause pausing_env (player_server_vtable pausing_env) seeking_server \<and> v = u\<lparr>trace := []\<rparr> \<and>
    t = handle_message pausing_env (player_server_vtable pausing_env)
      (Msg_state_changed (Some 1) GST_STATE_PAUSED GST_STATE_PLAYING) v \<and>
    mPendingSeek t = clamp (int_to_double 3000000000 / GST_SECOND) 0 (getDuration seeking_server) \<and>
    mPendingState t = GST_STATE_PLAYING"
proof -
  have s: "mPipeline seeking_server = Some 1" by (simp add: seeking_server_def)
  have n: "0 \<le> sint (3000000000 :: int64)" "sint (3000000000 :: int64) = 3000000000" by simp_all
  have e: "gst_element_query_position pausing_env h = Some 3000000000"
    "gst_element_set_state pausing_env h = Change_async"
    "gst_element_get_state pausing_env h = (Change_success, Some GST_STATE_PLAYING)" for h
    by (simp_all add: pausing_env_def)
  have st: "GST_STATE_PAUSED \<noteq> GST_STATE_PLAYING" by (simp add: gst_state_defs)
  from server_resumes_where_it_paused [OF s n(1) e(1) HOL.refl e(2) HOL.refl st HOL.refl e(3)]
  show ?thesis by (auto simp: n(2))
qed

end
