(* ===== verification/Following.thy ===== *)
theory Following
  imports Player_Client_Properties Player_Properties
begin

text \<open>
  How a client player follows a server: what a heartbeat, written by a server and received as a
  datagram, does to the volume, the mute flag, the state and the base time of the client.
\<close>

section \<open>A heartbeat as the client sees it\<close>

lemma onMessage_written:
  assumes "printable_packet pk" and "q = quantise_packet pk"
  shows "client_onMessage E (serialize pk) s =
    follow_state E q (follow_base E q (follow_volume E q (follow_mute E q s)))"
proof -
  have "serialize pk \<noteq> []" by (simp add: serialize_def)
  then show ?thesis by (simp add: client_onMessage_def parse_written [OF assms(1)] assms(2))
qed

text \<open>Volume and mute are settled by the first two statements.\<close>

definition audio :: "nat \<Rightarrow> player_client \<Rightarrow> ptr \<times> double \<times> bool" where
  "audio p s = (mPipeline s, volume_of p (trace s), mMute s)"

lemma audio_follow_base: "audio p (follow_base E q s) = audio p s"
  by (simp add: audio_def follow_base_def ask_def Let_def)

lemma audio_follow_state: "audio p (follow_state E q s) = audio p s"
proof -
  have "audio p (snd (queryState E s)) = audio p s" for s
    by (simp add: audio_def queryState_def ask_def Let_def split: prod.split option.split)
  moreover have "audio p (setState E (player_vtable E) st s) = audio p s" for st s
    by (simp add: audio_def setState_def ask_def Let_def player_vtable_def)
  ultimately show ?thesis by (simp add: follow_state_def split_beta)
qed

lemma follow_mute_audio:
  assumes "mPipeline s = Some p" and "reads_back E p"
  shows "mPipeline (follow_mute E q s) = Some p" "mMute (follow_mute E q s) = (pkt_mute q \<noteq> 0)"
    "pkt_mute q \<noteq> 0 \<Longrightarrow> \<not> mMute s \<Longrightarrow> volume_of p (trace (follow_mute E q s)) = 0"
    "mMute s = (pkt_mute q \<noteq> 0) \<Longrightarrow> follow_mute E q s = s"
  using assms
  by (auto simp: follow_mute_def setMute_def setVolume_def getVolume_def getMute_def ask_def Let_def
      reads_back_def)

lemma follow_volume_audio:
  assumes "mPipeline s = Some p" and "reads_back E p" and "t = follow_volume E q s"
  shows "mPipeline t = Some p"
    "feq (volume_of p (trace s)) (pkt_volume q) \<Longrightarrow>
      volume_of p (trace t) = volume_of p (trace s) \<and> mMute t = mMute s"
    "\<not> feq (volume_of p (trace s)) (pkt_volume q) \<Longrightarrow>
      volume_of p (trace t) = clamp (pkt_volume q) 0 1 \<and> \<not> mMute t"
  using assms
  by (auto simp: follow_volume_def setVolume_def getVolume_def ask_def Let_def reads_back_def)

lemma feq_zero_trans: "feq x 0 \<Longrightarrow> feq 0 y \<Longrightarrow> feq x y"
  by (cases x; cases y) (auto simp: zero_double_def)


text \<open>A client with an open pipeline, connected to its server.\<close>

definition following_client :: player_client where
  "following_client = client_storage\<lparr>mPipeline := Some 1, mState := GST_STATE_READY,
     pc_client := \<lparr>mServerAddress = ''10.0.0.1'', mReceiveSocket = Some 11, mListenAddress = Some 12,
       mContext = Some 13, mSource = Some 14, mServerPort = 5000, mConnected = True\<rparr>\<rparr>"

lemma following_client_simps:
  "mPipeline following_client = Some 1" "trace following_client = []" "mMute following_client = False"
  by (simp_all add: following_client_def client_storage_def player.defs fresh_storage_def)


section \<open>Taking over the base time\<close>

lemma follow_volume_mute_keeps:
  "mState (follow_mute E q s) = mState s" "mPipeline (follow_mute E q s) = mPipeline s"
  "pc_client (follow_mute E q s) = pc_client s"
  "mState (follow_volume E q s) = mState s" "mPipeline (follow_volume E q s) = mPipeline s"
  "pc_client (follow_volume E q s) = pc_client s"
  by (simp_all add: follow_mute_def follow_volume_def setMute_def setVolume_def getVolume_def ask_def Let_def)

lemma onMessage_new_base:
  assumes "printable_packet pk" and "mPipeline s = Some p"
    and "\<And>h. gst_element_get_base_time E (Clk (Get_base_time (Some p)) # h) \<noteq> pkt_base pk"
    and "pkt_base pk \<noteq> 0" and "t = client_onMessage E (serialize pk) s"
  shows "mBaseTime t = pkt_base pk" "mState t = mState s" "mPipeline t = Some p" "pc_client t = pc_client s"
proof -
  define q where "q = quantise_packet pk"
  define v where "v = follow_volume E q (follow_mute E q s)"
  have v: "mState v = mState s" "mPipeline v = Some p" "pc_client v = pc_client s"
    by (simp_all add: v_def follow_volume_mute_keeps assms(2))
  have "pkt_base q = pkt_base pk" by (simp add: q_def quantise_packet_def)
  then have "follow_state E q (follow_base E q v) =
    (emit (Clk (Get_base_time (Some p))) v)\<lparr>mBaseTime := pkt_base pk\<rparr>"
    using v assms(3,4) by (simp add: follow_state_def follow_base_def ask_def Let_def)
  then have "t = (emit (Clk (Get_base_time (Some p))) v)\<lparr>mBaseTime := pkt_base pk\<rparr>"
    using onMessage_written [OF assms(1) q_def, of E s] by (simp add: assms(5) v_def)
  then show "mBaseTime t = pkt_base pk" "mState t = mState s" "mPipeline t = Some p" "pc_client t = pc_client s"
    using v by simp_all
qed
lemma setupClock_follows:
  assumes "mPipeline s = Some p" and "mBaseTime s = b" and "b \<noteq> 0"
    and "e = Clk (Net_client_clock_new (c_str (mServerAddress (pc_client s)))
      (scast (getClockPort (mServerPort (pc_client s)))) b)"
    and "\<And>h. gst_net_client_clock_new E (e # h) = Some c" and "t = client_setupClock E s"
  shows "mBaseTime t = 0" "pc_mNetClock t = Some c"
    "\<exists>h. trace t = [Clk (Set_base_time (Some p) b), Clk (Set_start_time (Some p)), Clk (Use_clock (Some p) (Some c)),
      Clk (Clock_set_timeout (Some c)), e, Clk (Set_base_time (Some p) GST_CLOCK_TIME_NONE)] @ h"
  using assms
  by (auto simp: client_setupClock_def client_clearClock_def getServerAddress_def getServerPort_def
      ask_def Let_def)

text \<open>One round of \<open>iterate\<close> that finds a single datagram.\<close>

lemma iterate_one_datagram:
  assumes "isConnected (player_client_class E) s" and "mContext (pc_client s) = Some ctx"
    and "mReceiveSocket (pc_client s) = k" and "loop_bound E = Suc (Suc n)"
    and "a = Gio (Context_pending (Some ctx))" and "g_main_context_pending E (a # trace s)"
    and "g_main_context_iteration E (Gio (Context_iteration (Some ctx)) # a # trace s)"
    and "\<And>h. \<not> g_main_context_pending E (a # Gio (Socket_unref k) # h)"
    and "\<And>h. g_socket_receive E (Gio (Socket_receive k 1024) # h) = Some bytes"
    and "bytes \<noteq> []" and "length bytes < 1024" and "NUL \<notin> set bytes"
    and "\<And>u. pc_client u = pc_client s \<Longrightarrow> mPipeline u = mPipeline s \<Longrightarrow> mState u = mState s \<Longrightarrow>
      pc_client (client_onMessage E bytes u) = pc_client s"
  shows "\<exists>u. pc_client u = pc_client s \<and> mPipeline u = mPipeline s \<and> mState u = mState s \<and>
    Client_iterate E (player_client_class E) s = emit a (emit (Gio (Socket_unref k)) (client_onMessage E bytes u))"
proof -
  let ?C = "player_client_class E"
  let ?v = "emit (Gio (Context_iteration (Some ctx))) (emit a s)"
  let ?u = "emit (Gio (Socket_receive k 1024)) (emit (Gio (Socket_ref k)) ?v)"
  have u: "pc_client ?u = pc_client s" "mPipeline ?u = mPipeline s" "mState ?u = mState s" by simp_all
  have "incomming E ?C k ?v = (True, emit (Gio (Socket_unref k)) (client_onMessage E bytes ?u))"
    using assms(1,9-12) by (simp add: incomming_def ask_def Let_def isConnected_def buffer_text_short)
  then have "Client_iterate E ?C s =
    Client_iterate_loop (Suc n) E ?C (emit (Gio (Socket_unref k)) (client_onMessage E bytes ?u))"
    using assms(1-7) by (simp add: Client_iterate_def ask_def Let_def)
  also have "\<dots> = emit a (emit (Gio (Socket_unref k)) (client_onMessage E bytes ?u))"
    using assms(2,5,8) assms(13) [OF u] by (simp add: ask_def Let_def)
  finally show ?thesis using u by blast
qed

text \<open>The network clock a client with this base time asks for.\<close>

definition clock_request :: "player_client \<Rightarrow> uint64 \<Rightarrow> event" where
  "clock_request s b = Clk (Net_client_clock_new (c_str (mServerAddress (pc_client s)))
     (scast (getClockPort (mServerPort (pc_client s)))) b)"

text \<open>A heartbeat moves the client to the server's base time. When a connected client receives a
  heartbeat whose base time is not that of its pipeline, the update that receives it adopts it: with the
  pipeline in READY it drops its old clock, takes a network clock at the server's address and the
  port next to the server's, and sets the pipeline to run on it from the server's base time; in any
  other state it keeps the base time for later and asks for READY.\<close>

lemma update_new_base:
  assumes "printable_packet pk" and "mPipeline s = Some p" and "isConnected (player_client_class E) s"
    and "mContext (pc_client s) = Some ctx" and "mReceiveSocket (pc_client s) = k"
    and "loop_bound E = Suc (Suc n)" and "a = Gio (Context_pending (Some ctx))"
    and "g_main_context_pending E (a # trace s)"
    and "g_main_context_iteration E (Gio (Context_iteration (Some ctx)) # a # trace s)"
    and "\<And>h. \<not> g_main_context_pending E (a # Gio (Socket_unref k) # h)"
    and "\<And>h. g_socket_receive E (Gio (Socket_receive k 1024) # h) = Some (serialize pk)"
    and "\<And>h. gst_element_get_base_time E (Clk (Get_base_time (Some p)) # h) \<noteq> pkt_base pk"
    and "pkt_base pk \<noteq> 0"
    and "\<And>h. gst_net_client_clock_new E (clock_request s (pkt_base pk) # h) = Some c"
    and "t = client_onBeforeUpdate E s"
  shows "if mState s = GST_STATE_READY then
      mBaseTime t = 0 \<and> pc_mNetClock t = Some c \<and>
      (\<exists>h. trace t = [Clk (Set_base_time (Some p) (pkt_base pk)), Clk (Set_start_time (Some p)),
        Clk (Use_clock (Some p) (Some c)), Clk (Clock_set_timeout (Some c)),
        clock_request s (pkt_base pk), Clk (Set_base_time (Some p) GST_CLOCK_TIME_NONE)] @ h)
    else mBaseTime t = pkt_base pk \<and>
      (\<exists>h. filter (\<lambda>e. \<not> is_log e) (trace t) = Gst (Set_state (Some p) GST_STATE_READY) # h)"
proof -
  have bytes: "serialize pk \<noteq> []" "length (serialize pk) < 1024" "NUL \<notin> set (serialize pk)"
    using length_serialize [OF assms(1)] NUL_serialize [OF assms(1)] by (simp_all add: serialize_def)
  have client: "pc_client (client_onMessage E (serialize pk) u) = pc_client s"
    if "pc_client u = pc_client s" "mPipeline u = mPipeline s" "mState u = mState s" for u
    using onMessage_new_base [OF assms(1) _ assms(12,13) HOL.refl, of u] that assms(2) by simp
  obtain u where u: "pc_client u = pc_client s" "mPipeline u = mPipeline s" "mState u = mState s"
      "Client_iterate E (player_client_class E) s = emit a (emit (Gio (Socket_unref k)) (client_onMessage E (serialize pk) u))"
    using iterate_one_datagram [OF assms(3-11) bytes client] by blast
  define v where "v = Client_iterate E (player_client_class E) s"
  have v: "mBaseTime v = pkt_base pk" "mState v = mState s" "mPipeline v = Some p" "pc_client v = pc_client s"
    using onMessage_new_base [OF assms(1) _ assms(12,13) HOL.refl, of u] u assms(2) by (simp_all add: v_def)
  have t: "t = (if mState s \<noteq> GST_STATE_READY then
      (let w = emit (Gst (Set_state (Some p) GST_STATE_READY)) v in
       if gst_element_set_state E (trace w) = Change_failure
       then NSVR_LOG ''Client failed to put pipeline into READY state for a pending base.'' w else w)
    else client_setupClock E (NSVR_LOG ''Client receieved a new base time.'' v))"
    using assms(2,13,15) v by (simp add: client_onBeforeUpdate_def v_def [symmetric] getState_def ask_def Let_def)
  show ?thesis
  proof (cases "mState s = GST_STATE_READY")
    case True
    let ?w = "NSVR_LOG ''Client receieved a new base time.'' v"
    have e: "clock_request s (pkt_base pk) = Clk (Net_client_clock_new (c_str (mServerAddress (pc_client ?w)))
        (scast (getClockPort (mServerPort (pc_client ?w)))) (pkt_base pk))"
      by (simp add: clock_request_def v)
    have "t = client_setupClock E ?w" using t True by simp
    from setupClock_follows [OF _ _ assms(13) e assms(14) this, of p] True v show ?thesis by simp
  next
    case False
    then show ?thesis using t v by (simp add: Let_def)
  qed
qed

text \<open>One heartbeat is waiting, and the pipeline runs on another base time.\<close>

definition one_heartbeat :: env where
  "one_heartbeat = calm\<lparr>g_main_context_pending := (\<lambda>h. length h = 1), g_main_context_iteration := (\<lambda>_. True),
     g_socket_receive := (\<lambda>_. Some (serialize demo_packet)), gst_element_get_base_time := (\<lambda>_. 7)\<rparr>"

lemma following_client_facts:
  "isConnected (player_client_class one_heartbeat) following_client"
  "mContext (pc_client following_client) = Some 13" "mReceiveSocket (pc_client following_client) = Some 11"
  "mState following_client = GST_STATE_READY" "loop_bound one_heartbeat = Suc (Suc 98)"
  "g_main_context_pending one_heartbeat (a # trace following_client)"
  "g_main_context_iteration one_heartbeat h"
  "\<not> g_main_context_pending one_heartbeat (a # b # h)"
  "g_socket_receive one_heartbeat h = Some (serialize demo_packet)"
  "gst_element_get_base_time one_heartbeat h \<noteq> pkt_base demo_packet" "pkt_base demo_packet \<noteq> 0"
  "gst_net_client_clock_new one_heartbeat h = Some 8"
  by (simp_all add: following_client_def client_storage_def player.defs fresh_storage_def isConnected_def
      one_heartbeat_def demo_packet_def)

end
