(* ===== verification/Convergence.thy ===== *)
theory Convergence
  imports Following
begin

text \<open>
  A client player over several updates: a base time it has been told waits through every update
  until the pipeline is in READY and is adopted in the update that finds it there; and once
  its base time is the server's, the next heartbeat takes it to the server's state.
\<close>

section \<open>What the messages of the bus leave alone\<close>

definition base_view :: "player_client \<Rightarrow> ptr \<times> uint64 \<times> client \<times> ptr" where
  "base_view s = (mPipeline s, mBaseTime s, pc_client s, pc_mNetClock s)"

lemma base_view_simps [simp]:
  "base_view (emit e s) = base_view s" "base_view (s\<lparr>mState := x\<rparr>) = base_view s"
  "base_view (s\<lparr>mTime := t\<rparr>) = base_view s" "base_view (s\<lparr>mDuration := t\<rparr>) = base_view s"
  "base_view (s\<lparr>mVolume := t\<rparr>) = base_view s" "base_view (s\<lparr>mMute := b\<rparr>) = base_view s"
  "base_view (s\<lparr>saved_volume := t\<rparr>) = base_view s" "base_view (s\<lparr>mPendingSeek := t\<rparr>) = base_view s"
  "base_view (s\<lparr>mSeekingLock := b\<rparr>) = base_view s"
  by (simp_all add: base_view_def)

lemma base_view_setVolume [simp]: "base_view (setVolume v s) = base_view s"
  by (simp add: setVolume_def Let_def)

lemma base_view_methods [simp]:
  "base_view (setState E (player_client_vtable E') st s) = base_view s"
  "base_view (snd (getVolume E s)) = base_view s" "base_view (setMute E on s) = base_view s"
  "base_view (queryDuration E s) = base_view s" "base_view (Player_setTime E t s) = base_view s"
  "base_view (log_message dbg m s) = base_view s"
  by (simp_all add: setState_def getVolume_def setMute_def queryDuration_def Player_setTime_def log_message_def
      ask_def Let_def split: option.split)

lemma base_view_play [simp]:
  "base_view (play E (player_client_vtable E') s) = base_view s"
  "base_view (replay E (player_client_vtable E') s) = base_view s"
  "base_view (pause E (player_client_vtable E') s) = base_view s"
  by (simp_all add: replay_def stop_def pause_def play_def Let_def split_beta)

lemma base_view_message [simp]: "base_view (handle_message E (player_client_vtable E') m s) = base_view s"
  by (cases m) (simp_all add: handle_message_def Let_def)

lemma base_view_bus_loop [simp]: "base_view (bus_loop n E (player_client_vtable E') s) = base_view s"
  by (induction n arbitrary: s) (simp_all add: ask_def Let_def split: option.split)

lemma base_view_frame [simp]: "base_view (consume_frame (player_client_vtable E') s) = base_view s"
  by (simp add: consume_frame_def base_view_def release_def Let_def)

section \<open>The history of a client player only grows\<close>

interpretation client_history: client_effects E "\<lambda>s. suffix h (trace s)" for E h
  by (intro client_effects.intro client_members.intro history.player_effects_axioms)
    (auto simp: client_effects_axioms_def client_members_axioms_def intro: suffix_ConsI)

lemma rest_of_update:
  assumes "t = update E (player_client_vtable E) s" and "u = client_onBeforeUpdate E s"
  shows "base_view t = base_view u" "\<exists>h. trace t = h @ trace u"
proof -
  have t: "t = consume_frame (player_client_vtable E)
      (if mGstBus u \<noteq> None then bus_loop (loop_bound E) E (player_client_vtable E) u else u)"
    by (simp add: assms update_def Let_def)
  show "base_view t = base_view u" by (simp add: t)
  have "suffix (trace u) (trace t)" unfolding t
    by (intro client_history.following.consume_frame_keeps if_pred [of "\<lambda>s. suffix (trace u) (trace s)"]
        client_history.following.bus_loop_keeps) simp_all
  then show "\<exists>h. trace t = h @ trace u" by (simp add: suffix_def)
qed

section \<open>A base time waits for READY\<close>

lemma silent_iterate:
  assumes "\<And>h. \<not> g_main_context_pending E h" and "0 < loop_bound E"
  shows "\<exists>h. Client_iterate E (player_client_class E) s = s\<lparr>trace := h @ trace s\<rparr>"
proof -
  obtain n where n: "loop_bound E = Suc n" using assms(2) by (cases "loop_bound E") simp_all
  show ?thesis
  proof (cases "isConnected (player_client_class E) s")
    case True
    then show ?thesis using n assms(1)
      by (intro exI [of _ "[Gio (Context_pending (mContext (pc_client s)))]"])
        (simp add: Client_iterate_def ask_def Let_def emit_def)
  next
    case False
    then show ?thesis by (intro exI [of _ "[]"]) (simp add: Client_iterate_def)
  qed
qed

text \<open>What adopting a base time adds to the history.\<close>

definition adoption :: "player_client \<Rightarrow> nat \<Rightarrow> nat \<Rightarrow> uint64 \<Rightarrow> event list" where
  "adoption s p c b =
     [Clk (Set_base_time (Some p) b), Clk (Set_start_time (Some p)), Clk (Use_clock (Some p) (Some c)),
      Clk (Clock_set_timeout (Some c)), clock_request s b, Clk (Set_base_time (Some p) GST_CLOCK_TIME_NONE)]"

lemma clock_request_cong: "pc_client s = pc_client t \<Longrightarrow> clock_request s b = clock_request t b"
  by (simp add: clock_request_def)

lemma setupClock_adopts:
  assumes "mPipeline s = Some p" and "mBaseTime s = b" and "b \<noteq> 0"
    and "\<And>h. gst_net_client_clock_new E (clock_request s b # h) = Some c"
  shows "mBaseTime (client_setupClock E s) = 0" "pc_mNetClock (client_setupClock E s) = Some c"
    "\<exists>k. trace (client_setupClock E s) = adoption s p c b @ k @ trace s"
  using assms
  by (auto simp: client_setupClock_def client_clearClock_def getServerAddress_def getServerPort_def
      adoption_def clock_request_def ask_def Let_def)

lemma waiting_update:
  assumes "mPipeline s = Some p" and "mBaseTime s = b" and "b \<noteq> 0"
    and "\<And>h. \<not> g_main_context_pending E h" and "0 < loop_bound E"
    and "\<And>h. gst_net_client_clock_new E (clock_request s b # h) = Some c"
    and "t = update E (player_client_vtable E) s"
  shows "mState s \<noteq> GST_STATE_READY \<Longrightarrow> base_view t = base_view s \<and>
      (\<exists>h k. trace t = h @ Gst (Set_state (Some p) GST_STATE_READY) # k @ trace s)"
    "mState s = GST_STATE_READY \<Longrightarrow> mBaseTime t = 0 \<and> pc_mNetClock t = Some c \<and>
      (\<exists>h k. trace t = h @ adoption s p c b @ k @ trace s)"
proof -
  obtain g where g: "Client_iterate E (player_client_class E) s = s\<lparr>trace := g @ trace s\<rparr>"
    using silent_iterate [OF assms(4,5)] by blast
  define v where "v = s\<lparr>trace := g @ trace s\<rparr>"
  define u where "u = client_onBeforeUpdate E s"
  from rest_of_update [OF assms(7) u_def] obtain h where t: "base_view t = base_view u" "trace t = h @ trace u" by blast
  show "base_view t = base_view s \<and> (\<exists>h k. trace t = h @ Gst (Set_state (Some p) GST_STATE_READY) # k @ trace s)"
    if "mState s \<noteq> GST_STATE_READY"
  proof -
    have "base_view u = base_view s \<and> (\<exists>h. trace u = h @ Gst (Set_state (Some p) GST_STATE_READY) # g @ trace s)"
      using assms(1-3) that by (auto simp: u_def client_onBeforeUpdate_def g getState_def ask_def base_view_def Let_def)
    then show ?thesis using t by (metis append.assoc)
  qed
  show "mBaseTime t = 0 \<and> pc_mNetClock t = Some c \<and> (\<exists>h k. trace t = h @ adoption s p c b @ k @ trace s)"
    if "mState s = GST_STATE_READY"
  proof -
    define w where "w = NSVR_LOG ''Client receieved a new base time.'' v"
    have w: "mPipeline w = Some p" "mBaseTime w = b" "pc_client w = pc_client s" "trace w = Logged ''Client receieved a new base time.'' # g @ trace s"
      using assms(1,2) by (simp_all add: w_def v_def)
    have u: "u = client_setupClock E w"
      using assms(1-3) that by (simp add: u_def client_onBeforeUpdate_def g getState_def w_def v_def Let_def)
    have r: "clock_request w b = clock_request s b" "adoption w p c b = adoption s p c b"
      using clock_request_cong [OF w(3)] by (simp_all add: adoption_def)
    note a = setupClock_adopts [OF w(1,2) assms(3), of E c, unfolded r, OF assms(6)]
    from a(3) obtain k where "trace u = adoption s p c b @ k @ Logged ''Client receieved a new base time.'' # g @ trace s"
      by (auto simp: u w(4))
    then have "\<exists>h k. trace t = h @ adoption s p c b @ k @ trace s"
      unfolding t(2) by (intro exI [of _ h] exI [of _ "k @ Logged ''Client receieved a new base time.'' # g"]) simp
    then show ?thesis using a(1,2) t(1) by (simp add: u base_view_def)
  qed
qed


text \<open>A client that plays when it is told the base time, and a bus that reports READY once it has been
  asked for.\<close>

definition waiting_client :: player_client where
  "waiting_client = following_client\<lparr>mState := GST_STATE_PLAYING, mBaseTime := 1000000000, mGstBus := Some 2\<rparr>"

definition reports_ready :: env where
  "reports_ready = calm\<lparr>
     gst_bus_have_pending := (\<lambda>h. 1 < length h \<and> h ! 1 = Gst (Set_state (Some 1) GST_STATE_READY)),
     gst_bus_pop := (\<lambda>_. Some (Msg_state_changed (Some 1) GST_STATE_PLAYING GST_STATE_READY))\<rparr>"

lemma reports_ready_facts:
  "\<not> g_main_context_pending reports_ready h" "0 < loop_bound reports_ready"
  "gst_net_client_clock_new reports_ready h = Some 8"
  by (simp_all add: reports_ready_def)

lemma waiting_client_facts:
  "mPipeline waiting_client = Some 1" "mBaseTime waiting_client = 1000000000"
  "mState waiting_client \<noteq> GST_STATE_READY"
  "mState (update reports_ready (player_client_vtable reports_ready) waiting_client) = GST_STATE_READY"
  by (simp add: waiting_client_def following_client_simps,
      simp add: waiting_client_def,
      simp add: waiting_client_def gst_state_defs) code_simp


section \<open>The state of the server\<close>

text \<open>C27: once the base time of its pipeline is the server's, a heartbeat takes the client to the server's
  state: it asks for that state, as the last thing it does, unless the pipeline is in it already,
  in which case nothing is asked for. No base time is put aside.\<close>

theorem heartbeat_restores_state:
  assumes "printable_packet pk" and "mPipeline s = Some p" and "mBaseTime s = 0"
    and "\<And>h. gst_element_get_base_time E (Clk (Get_base_time (Some p)) # h) = pkt_base pk"
    and "\<And>h. gst_element_get_state E (Gst (Get_state (Some p)) # h) = (Change_success, Some st)"
    and "t = client_onMessage E (serialize pk) s"
  shows "mBaseTime t = 0 \<and> mState t = st \<and>
    (\<exists>h. trace t = (if st = pkt_state pk then [] else [Gst (Set_state (Some p) (pkt_state pk))]) @
      [Gst (Get_state (Some p)), Clk (Get_base_time (Some p))] @ h)"
proof -
  define q where "q = quantise_packet pk"
  define v where "v = follow_volume E q (follow_mute E q s)"
  have q: "pkt_base q = pkt_base pk" "pkt_state q = pkt_state pk" by (simp_all add: q_def quantise_packet_def)
  have v: "mPipeline v = Some p" "mBaseTime v = 0"
    using assms(2,3) by (simp_all add: v_def follow_volume_mute_keeps follow_mute_def follow_volume_def setMute_def
        setVolume_def getVolume_def ask_def Let_def)
  have b: "follow_base E q v = emit (Clk (Get_base_time (Some p))) v"
    using v(1) q(1) assms(4) by (simp add: follow_base_def ask_def)
  have "t = follow_state E q (emit (Clk (Get_base_time (Some p))) v)"
    using onMessage_written [OF assms(1) q_def, of E s] by (simp add: assms(6) v_def [symmetric] b)
  then show ?thesis using v q(2) assms(5)
    by (simp add: follow_state_def queryState_def setState_def player_vtable_def ask_def Let_def)
qed

definition plays_along :: env where
  "plays_along = calm\<lparr>gst_element_get_state := \<lambda>_. (Change_success, Some GST_STATE_READY)\<rparr>"

theorem heartbeat_restores_state_witness:
  "\<exists>t h. t = client_onMessage plays_along (serialize demo_packet) following_client \<and> mBaseTime t = 0 \<and>
    trace t = [Gst (Set_state (Some 1) GST_STATE_PLAYING), Gst (Get_state (Some 1)), Clk (Get_base_time (Some 1))] @ h"
proof -
  have e: "gst_element_get_base_time plays_along g = pkt_base demo_packet"
    "gst_element_get_state plays_along g = (Change_success, Some GST_STATE_READY)" for g
    by (simp_all add: plays_along_def demo_packet_def)
  have b: "mBaseTime following_client = 0"
    by (simp add: following_client_def client_storage_def player.defs)
  from heartbeat_restores_state [OF demo_printable(1) following_client_simps(1) b e HOL.refl]
  show ?thesis by (simp add: demo_packet_def gst_state_defs)
qed

end
