(* ===== verification/Player_Soundness.thy ===== *)
theory Player_Soundness
  imports Seek_Refinement
begin

text \<open>
  No undefined behaviour: as long as GStreamer keeps to its contract, \<open>courteous\<close>, a player runs from
  its constructor to the end of its destructor without reading a null pointer, converting a number
  out of range or staying in its message loop. The locale \<open>sound_hooks\<close> states what the hooks of a
  derived class have to keep for that.
\<close>

section \<open>Durations\<close>

text \<open>A double near its exact value, from above.\<close>

lemma round_double_upper:
  assumes "0 \<le> r" and "r \<le> b"
  shows "round_to 53 (- 1074) r \<le> b + b / 2 ^ 53 + 1 / 2 ^ 100"
proof -
  have "r / 2 ^ 53 \<le> b / 2 ^ 53" by (rule divide_right_mono) (use assms(2) in simp_all)
  then show ?thesis using round_double_error [OF assms(1)] assms(2) tiny_bounds(2) by linarith
qed

text \<open>A time in seconds far below the range of \<open>gint64\<close> nanoseconds, with any sign.\<close>

lemma small_product:
  assumes "a \<le> 8000000000"
  shows "double_to_int64 (Fin s a * Fin False 1000000000) \<noteq> None"
proof -
  let ?r = "a * 1000000000" and ?m = "round_to 53 (- 1074) (a * 1000000000)"
  have "Fin s a * Fin False 1000000000 = Fin s ?m \<and> ?m < 9000000000000000000"
  proof (cases "0 \<le> ?r")
    case True
    have r: "?r \<le> 8000000000000000000" using assms by simp
    have "(8000000000000000000::rat) \<le> 2 ^ 63" by simp
    also have "(2::rat) ^ 63 \<le> 2 ^ 1000" by (rule power_increasing) simp_all
    finally have "?r \<le> 2 ^ 1000" using r by linarith
    moreover have "?m < 9000000000000000000"
      using round_double_upper [OF True r] by (rule le_less_trans) simp
    ultimately show ?thesis using to_double_finite [OF True] by simp
  qed (simp add: round_to_def to_double_def DBL_OVERFLOW_def)
  then have m: "Fin s a * Fin False 1000000000 = Fin s ?m" "\<lfloor>?m\<rfloor> < 9000000000000000000"
    by simp_all
  define k where "k = \<lfloor>?m\<rfloor>"
  have "0 \<le> k" "k < 9000000000000000000" using m(2) by (simp_all add: k_def)
  then show ?thesis unfolding m(1) double_to_int64_def double_trunc.simps k_def [symmetric] by simp
qed

text \<open>A duration every number can be clamped to and sought on.\<close>

definition small_duration :: "double \<Rightarrow> bool" where
  "small_duration d \<longleftrightarrow> (\<exists>s a. d = Fin s a \<and> 0 \<le> a \<and> a \<le> 8000000000)"

lemma small_clamp:
  assumes "small_duration d" and "t \<noteq> NaN"
  shows "double_to_int64 (clamp t 0 d * GST_SECOND) \<noteq> None"
proof -
  obtain s a where d: "d = Fin s a" "0 \<le> a" "a \<le> 8000000000" using assms(1) by (auto simp: small_duration_def)
  have "\<exists>s' b. clamp t 0 d = Fin s' b \<and> b \<le> 8000000000"
    using assms(2) d by (cases t) (auto simp: clamp_def double_order_defs zero_double_def split: if_splits)
  then show ?thesis using small_product by (auto simp: GST_SECOND_def simp del: times_double.simps)
qed

lemma small_zero: "small_duration 0"
  unfolding small_duration_def zero_double_def by (intro exI [of _ False] exI [of _ 0]) simp

lemma small_seconds:
  assumes "\<bar>n\<bar> \<le> 2 ^ 62"
  shows "small_duration (int_to_double n / GST_SECOND)"
proof -
  let ?a = "round_to 53 (- 1074) (of_int \<bar>n\<bar>)"
  let ?b = "round_to 53 (- 1074) (?a / 1000000000)"
  have "(of_int \<bar>n\<bar> :: rat) \<le> of_int (2 ^ 62)" using assms by (simp only: of_int_le_iff)
  then have n: "(of_int \<bar>n\<bar> :: rat) \<le> 2 ^ 62" "(0::rat) \<le> of_int \<bar>n\<bar>" by simp_all
  have big: "(2::rat) ^ 63 \<le> 2 ^ 1000" by (rule power_increasing) simp_all
  have a: "?a \<le> 5000000000000000000"
    using round_double_upper [OF n(2,1)] by (rule order_trans) simp
  then have b: "?b \<le> 8000000000"
    by (intro order_trans [OF round_double_upper [of _ 5000000000]]) simp_all
  have "(of_int \<bar>n\<bar> :: rat) \<le> 2 ^ 1000" using n(1) big by simp
  then have i: "int_to_double n = Fin (n < 0) ?a" by (simp add: int_to_double_def to_double_finite)
  have "?a / 1000000000 \<le> 2 ^ 1000" using a big by simp
  then have "int_to_double n / GST_SECOND = Fin (n < 0) ?b"
    by (simp add: i GST_SECOND_def to_double_finite)
  then show ?thesis using b by (simp add: small_duration_def)
qed

section \<open>The contract\<close>

fun has_text :: "message \<Rightarrow> bool" where
  "has_text (Msg_error err dbg) = (dbg \<noteq> None)"
| "has_text (Msg_warning err dbg) = (dbg \<noteq> None)"
| "has_text (Msg_info err dbg) = (dbg \<noteq> None)"
| "has_text _ = True"

text \<open>The rounds of a message loop since a bus or a main context was last found empty.\<close>

fun burst :: "env \<Rightarrow> event list \<Rightarrow> nat" where
  "burst E [] = 0"
| "burst E (Gst (Bus_have_pending b) # h) =
     (if gst_bus_have_pending E (Gst (Bus_have_pending b) # h) then burst E h else 0)"
| "burst E (Gst (Bus_pop b) # h) = Suc (burst E h)"
| "burst E (Gio (Context_pending c) # h) =
     (if g_main_context_pending E (Gio (Context_pending c) # h) then burst E h else 0)"
| "burst E (Gio (Context_iteration c) # h) = Suc (burst E h)"
| "burst E (_ # h) = burst E h"

text \<open>A launch that yields no pipeline reports why, a pipeline has a bus, messages carry a debug
  text, durations are below \<open>2 ^ 62\<close> nanoseconds (146 years; the value for an unknown duration of a
  live stream is not), and the bus runs empty within the rounds the model gives the loop.\<close>

definition courteous :: "env \<Rightarrow> bool" where
  "courteous E \<longleftrightarrow>
     (\<forall>h err. gst_parse_launch E h = (None, err) \<longrightarrow> err) \<and>
     (\<forall>h. gst_pipeline_get_bus E h \<noteq> None) \<and>
     (\<forall>h m. gst_bus_pop E h = Some m \<longrightarrow> has_text m) \<and>
     (\<forall>h info. gst_discover_result E h = Some info \<longrightarrow> uint (duration_ns info) \<le> 2 ^ 62) \<and>
     (\<forall>h ns. gst_element_query_duration E h = Some ns \<longrightarrow> \<bar>sint ns\<bar> \<le> 2 ^ 62) \<and>
     (\<forall>b h. loop_bound E \<le> Suc (burst E h) \<longrightarrow> \<not> gst_bus_have_pending E (Gst (Bus_have_pending b) # h)) \<and>
     0 < loop_bound E"

lemma courteousD:
  assumes "courteous E"
  shows "gst_parse_launch E h = (None, err) \<Longrightarrow> err" "gst_pipeline_get_bus E h \<noteq> None"
    "gst_bus_pop E h = Some m \<Longrightarrow> has_text m"
    "gst_discover_result E h = Some info \<Longrightarrow> \<bar>uint (duration_ns info)\<bar> \<le> 2 ^ 62"
    "gst_element_query_duration E h = Some ns \<Longrightarrow> \<bar>sint ns\<bar> \<le> 2 ^ 62"
    "gst_bus_have_pending E (Gst (Bus_have_pending b) # h) \<Longrightarrow> Suc (burst E h) < loop_bound E"
    "0 < loop_bound E"
  using assms unfolding courteous_def abs_of_nonneg [OF uint_ge_0] not_le [symmetric] by blast+

text \<open>The same for the main contexts a networked player iterates.\<close>

definition contexts_drain :: "env \<Rightarrow> bool" where
  "contexts_drain E \<longleftrightarrow>
     (\<forall>c h. loop_bound E \<le> Suc (burst E h) \<longrightarrow> \<not> g_main_context_pending E (Gio (Context_pending c) # h))"

lemma contexts_drainD:
  "contexts_drain E \<Longrightarrow> g_main_context_pending E (Gio (Context_pending c) # h) \<Longrightarrow> Suc (burst E h) < loop_bound E"
  unfolding contexts_drain_def not_le [symmetric] by blast

section \<open>What every step keeps\<close>

text \<open>A history whose undefined behaviours are all among given ones.\<close>

fun allowed :: "string set \<Rightarrow> event \<Rightarrow> bool" where
  "allowed F (Fault m) = (m \<in> F)"
| "allowed F Diverged = False"
| "allowed F _ = True"

definition sound_upto :: "string set \<Rightarrow> 'a world_scheme \<Rightarrow> bool" where
  "sound_upto F s \<longleftrightarrow> (\<forall>e \<in> set (trace s). allowed F e)"

lemma allowed_none: "allowed {} e = sound_event e"
  by (cases e) simp_all

lemma sound_upto_none: "sound_upto {} s = sound s"
  by (simp add: sound_upto_def sound_def allowed_none)

text \<open>The allowed events that belong to no loop.\<close>

fun mild :: "string set \<Rightarrow> event \<Rightarrow> bool" where
  "mild F (Gst (Bus_have_pending b)) = False"
| "mild F (Gst (Bus_pop b)) = False"
| "mild F (Gio (Context_pending c)) = False"
| "mild F (Gio (Context_iteration c)) = False"
| "mild F e = allowed F e"

lemma mild_burst: "mild F e \<Longrightarrow> burst E (e # h) = burst E h"
  by (cases "(F, e)" rule: mild.cases) auto

lemma mild_allowed: "mild F e \<Longrightarrow> allowed F e"
  by (cases "(F, e)" rule: mild.cases) auto

text \<open>A history sound up to given undefined behaviours, a duration to seek on, and \<open>k\<close> rounds of a loop.\<close>

definition tame :: "string set \<Rightarrow> env \<Rightarrow> nat \<Rightarrow> 'a player_scheme \<Rightarrow> bool" where
  "tame F E k s \<longleftrightarrow> sound_upto F s \<and> small_duration (mDuration s) \<and> burst E (trace s) = k"

lemma tame_members [simp]:
  "tame F E k (s\<lparr>mState := x\<rparr>) = tame F E k s" "tame F E k (s\<lparr>mTime := d\<rparr>) = tame F E k s" "tame F E k (s\<lparr>mVolume := d\<rparr>) = tame F E k s"
  "tame F E k (s\<lparr>mMute := b\<rparr>) = tame F E k s" "tame F E k (s\<lparr>mLoop := b\<rparr>) = tame F E k s" "tame F E k (s\<lparr>saved_volume := d\<rparr>) = tame F E k s"
  "tame F E k (s\<lparr>mPendingSeek := d\<rparr>) = tame F E k s" "tame F E k (s\<lparr>mSeekingLock := b\<rparr>) = tame F E k s"
  "tame F E k (s\<lparr>mPipeline := q\<rparr>) = tame F E k s" "tame F E k (s\<lparr>mGstBus := q\<rparr>) = tame F E k s"
  "tame F E k (s\<lparr>mCurrentBuffer := q\<rparr>) = tame F E k s" "tame F E k (s\<lparr>mCurrentSample := q\<rparr>) = tame F E k s"
  "tame F E k (s\<lparr>mCurrentMapInfo := mi\<rparr>) = tame F E k s" "tame F E k (s\<lparr>mBufferDirty := b\<rparr>) = tame F E k s"
  "tame F E k (s\<lparr>mWidth := w\<rparr>) = tame F E k s" "tame F E k (s\<lparr>mHeight := w\<rparr>) = tame F E k s"
  by (auto simp: tame_def sound_upto_def)

lemma tame_emit [simp]: "mild F e \<Longrightarrow> tame F E k (emit e s) = tame F E k s"
  by (auto simp: tame_def sound_upto_def mild_burst mild_allowed)

lemma tame_set_duration: "tame F E k s \<Longrightarrow> small_duration d \<Longrightarrow> tame F E k (s\<lparr>mDuration := d\<rparr>)"
  by (simp add: tame_def sound_upto_def)

lemma tame_small: "tame F E k s \<Longrightarrow> small_duration (mDuration s)"
  by (simp add: tame_def)

lemma tame_release [simp]: "(\<And>q. mild F (Gst (f q))) \<Longrightarrow> tame F E k (release f p s) = tame F E k s"
  by (simp add: release_def)

lemma tame_Player_reset: "tame F E k s \<Longrightarrow> tame F E k (Player_reset s)"
  by (simp add: Player_reset_def tame_set_duration small_zero)

lemma tame_queryState: "tame F E k s \<Longrightarrow> tame F E k (snd (queryState E s))"
  by (auto simp: queryState_def ask_def Let_def split: prod.split option.split)

lemma tame_getTime: "tame F E k s \<Longrightarrow> tame F E k (snd (getTime E s))"
  by (auto simp: getTime_def ask_def Let_def split: option.split)

lemma tame_queryDuration: "courteous E \<Longrightarrow> tame F E k s \<Longrightarrow> tame F E k (queryDuration E s)"
  by (auto simp: queryDuration_def ask_def Let_def intro!: tame_set_duration small_seconds
      split: option.split dest: courteousD(5))

lemma tame_getVolume: "tame F E k s \<Longrightarrow> tame F E k (snd (getVolume E s))"
  by (simp add: getVolume_def ask_def Let_def)

lemma tame_setVolume: "tame F E k s \<Longrightarrow> tame F E k (setVolume v s)"
  by (simp add: setVolume_def Let_def)

lemma tame_setMute: "tame F E k s \<Longrightarrow> tame F E k (setMute E on s)"
  using tame_getVolume [of F E k s]
  by (auto simp: setMute_def Let_def split: prod.split intro!: tame_setVolume)

lemma tame_setLoop: "tame F E k s \<Longrightarrow> tame F E k (setLoop on s)"
  by (simp add: setLoop_def)

lemma tame_setTime: "tame F E k s \<Longrightarrow> t \<noteq> NaN \<Longrightarrow> tame F E k (Player_setTime E t s)"
  using small_clamp [OF tame_small, of F E k s t]
  by (auto simp: Player_setTime_def ask_def Let_def)

lemma tame_log_error: "tame F E k s \<Longrightarrow> err \<Longrightarrow> tame F E k (log_error err msg s)"
  by (simp add: log_error_def)

lemma tame_log_message: "tame F E k s \<Longrightarrow> dbg \<noteq> None \<Longrightarrow> tame F E k (log_message dbg msg s)"
  by (auto simp: log_message_def)

subsection \<open>Discovery\<close>

lemma gstreamerInitialized_tame: "gstreamerInitialized E s = (ok, t) \<Longrightarrow> tame F E k s \<Longrightarrow> tame F E k t"
  by (auto simp: gstreamerInitialized_def ask_def split: if_splits)

lemma pathToUri_tame: "pathToUri E path s = (uri, t) \<Longrightarrow> tame F E k s \<Longrightarrow> tame F E k t"
  by (auto simp: pathToUri_def ask_def split: if_splits option.splits)

lemma store_info_tame: "store_info info d s = (d', t) \<Longrightarrow> tame F E k s \<Longrightarrow> tame F E k t"
  by (auto simp: store_info_def Let_def split: if_splits)

lemma Discoverer_open_tame: "Discoverer_open E path d s = (ok, d', t) \<Longrightarrow> tame F E k s \<Longrightarrow> tame F E k t"
  by (auto simp: Discoverer_open_def ask_def Let_def split: if_splits prod.splits option.splits
      dest!: gstreamerInitialized_tame pathToUri_tame store_info_tame)

lemma store_info_duration:
  "store_info info d s = (d', t) \<Longrightarrow> d_mDuration d' = int_to_double (uint (duration_ns info)) / GST_SECOND"
  by (auto simp: store_info_def Let_def split: if_splits)

lemma Discoverer_open_duration:
  assumes "courteous E" and "Discoverer_open E path d s = (ok, d', t)"
  shows "small_duration (Discoverer_getDuration d')"
proof -
  have "small_duration (d_mDuration new_discoverer)" by (simp add: new_discoverer_def small_zero)
  then show ?thesis using assms(2)
    by (auto simp: Discoverer_open_def ask_def Let_def Discoverer_getDuration_def store_info_duration
      split: if_splits prod.splits option.splits intro!: small_seconds dest!: courteousD(4) [OF assms(1)])
qed

subsection \<open>Frames\<close>

lemma tame_processSample: "tame F E k s \<Longrightarrow> tame F E k (processSample E x s)"
  by (simp add: processSample_def ask_def Let_def)

lemma tame_read_caps: "tame F E k s \<Longrightarrow> tame F E k (read_caps c s)"
  by (auto simp: read_caps_def Let_def split: caps.split option.split)

lemma tame_onPreroll: "tame F E k s \<Longrightarrow> tame F E k (onPreroll E s)"
  by (auto simp: onPreroll_def ask_def Let_def split: option.split intro!: tame_processSample tame_read_caps)

lemma tame_onSample: "tame F E k s \<Longrightarrow> tame F E k (onSample E s)"
  by (auto simp: onSample_def ask_def split: option.split intro!: tame_processSample)

text \<open>The calls without a NaN where a time is asked for: \<open>setTime\<close> converts it to an integer.\<close>

fun numeric :: "player_op \<Rightarrow> bool" where
  "numeric (Op_setTime t) = (t \<noteq> NaN)"
| "numeric _ = True"

section \<open>What the hooks have to keep\<close>

text \<open>The undefined behaviours a derived class may run into, the condition on the environment it needs, and
  its hooks.\<close>

locale sound_hooks =
  fixes F :: "string set"
    and E :: env
    and V :: "'a player_scheme vtable"
    and lawful_env :: bool
  assumes courteous: "lawful_env \<Longrightarrow> courteous E"
    and hook_frame: "lawful_env \<Longrightarrow> tame F E k s \<Longrightarrow> tame F E k (onVideoFrame V p n s)"
    and hook_changed: "lawful_env \<Longrightarrow> tame F E k s \<Longrightarrow> tame F E k (onStateChanged V st s)"
    and hook_end: "lawful_env \<Longrightarrow> tame F E k s \<Longrightarrow> tame F E k (onStreamEnd V s)"
    and hook_clock: "lawful_env \<Longrightarrow> tame F E k s \<Longrightarrow> tame F E k (setupClock V s)"
    and hook_seek: "lawful_env \<Longrightarrow> tame F E k s \<Longrightarrow> tame F E k (onSeekFinished V s)"
    and hook_open: "lawful_env \<Longrightarrow> tame F E k s \<Longrightarrow> tame F E k (onBeforeOpen V s)"
    and hook_close: "lawful_env \<Longrightarrow> tame F E k s \<Longrightarrow> tame F E k (onBeforeClose V s)"
    and hook_update: "lawful_env \<Longrightarrow> tame F E k s \<Longrightarrow> \<exists>k. tame F E k (onBeforeUpdate V s)"
    and hook_set_state: "lawful_env \<Longrightarrow> tame F E k s \<Longrightarrow> tame F E k (onBeforeSetState V st s)"
    and hook_time: "lawful_env \<Longrightarrow> tame F E k s \<Longrightarrow> t \<noteq> NaN \<Longrightarrow> tame F E k (setTime V t s)"
begin

lemma tame_setState: "lawful_env \<Longrightarrow> tame F E k s \<Longrightarrow> tame F E k (setState E V st s)"
  by (simp add: setState_def ask_def Let_def hook_changed hook_set_state)

lemma tame_stop: "lawful_env \<Longrightarrow> tame F E k s \<Longrightarrow> tame F E k (stop E V s)"
  by (simp add: stop_def tame_setState)

lemma tame_play: "lawful_env \<Longrightarrow> tame F E k s \<Longrightarrow> tame F E k (play E V s)"
  using tame_getVolume [of F E k "setState E V GST_STATE_PLAYING s"] tame_setState [of k s]
  by (auto simp: play_def Let_def split: prod.split intro!: tame_setMute)

lemma tame_close: "lawful_env \<Longrightarrow> tame F E k s \<Longrightarrow> tame F E k (close E V s)"
  by (simp add: close_def Let_def tame_Player_reset tame_stop hook_close)

lemma tame_force_state: "lawful_env \<Longrightarrow> tame F E k s \<Longrightarrow> tame F E k (snd (force_state E V st msg s))"
  by (auto simp: force_state_def ask_def Let_def tame_close split: prod.split)

lemma tame_hook_sink: "lawful_env \<Longrightarrow> tame F E k s \<Longrightarrow> tame F E k (snd (hook_sink E V d s))"
  by (auto simp: hook_sink_def ask_def Let_def tame_close)

lemma tame_preroll_pipeline:
  assumes "lawful_env" and "tame F E k s" and "small_duration (Discoverer_getDuration d)"
  shows "tame F E k (snd (preroll_pipeline E V d s))"
  using assms
  by (auto simp: preroll_pipeline_def Let_def split_beta
    intro!: tame_set_duration hook_clock tame_force_state tame_hook_sink)

lemma tame_launch:
  assumes "lawful_env" and "tame F E k s" and "small_duration (Discoverer_getDuration d)"
  shows "tame F E k (snd (launch E V d cmd s))"
  using assms
  by (auto simp: courteousD(2) [OF courteous] launch_def ask_def Let_def split: prod.split
    intro!: tame_log_error tame_close tame_preroll_pipeline dest: courteousD(1) [OF courteous])

lemma tame_open_sized:
  assumes "lawful_env" and "tame F E k s"
  shows "tame F E k (snd (open_sized E V path width height fmt s))"
  using assms
  by (auto simp: open_sized_def Let_def split: prod.split option.split
    intro!: tame_launch tame_close hook_open
    intro: Discoverer_open_duration [OF courteous] Discoverer_open_tame gstreamerInitialized_tame)

lemma tame_open_bgra: "lawful_env \<Longrightarrow> tame F E k s \<Longrightarrow> tame F E k (snd (open_bgra E V path width height s))"
  by (simp add: open_bgra_def tame_open_sized)

lemma tame_open_fmt: "lawful_env \<Longrightarrow> tame F E k s \<Longrightarrow> tame F E k (snd (open_fmt E V path fmt s))"
  by (auto simp: open_fmt_def Let_def split: prod.split intro: tame_open_sized Discoverer_open_tame)

lemma tame_open_auto: "lawful_env \<Longrightarrow> tame F E k s \<Longrightarrow> tame F E k (snd (open_auto E V path s))"
  by (auto simp: open_auto_def Let_def split: prod.split intro: tame_open_bgra Discoverer_open_tame)

subsection \<open>The message loop\<close>

lemma tame_async_done:
  assumes "lawful_env" and "tame F E k s"
  shows "tame F E k (handle_message E V Msg_async_done s)"
proof -
  have "tame F E k (setTime V (mPendingSeek s) (s\<lparr>mSeekingLock := False\<rparr>))" if "0 \<le> mPendingSeek s"
    using that assms by (intro hook_time) (auto simp: double_order_defs zero_double_def)
  then show ?thesis using assms by (simp add: handle_message_async_done Let_def hook_seek)
qed

lemma tame_handle_message:
  assumes "lawful_env" and "tame F E k s" and "has_text m"
  shows "tame F E k (handle_message E V m s)"
proof (cases "m = Msg_async_done")
  case True
  then show ?thesis using tame_async_done [OF assms(1,2)] by simp
next
  case False
  then show ?thesis using assms unfolding handle_message_def Let_def
    by (cases m) (simp_all add: tame_log_message tame_queryDuration courteous replay_def pause_def tame_play
        tame_stop tame_setState hook_changed hook_end)
qed

lemma tame_bus_loop:
  assumes "lawful_env" and "tame F E k s" and "loop_bound E \<le> k + n" and "0 < n"
  shows "\<exists>k. tame F E k (bus_loop n E V s)"
  using assms(2-4)
proof (induction n arbitrary: k s)
  case (Suc n)
  let ?e = "Gst (Bus_have_pending (mGstBus s))" and ?p = "Gst (Bus_pop (mGstBus s))"
  show ?case
  proof (cases "gst_bus_have_pending E (?e # trace s)")
    case False
    then have "tame F E 0 (emit ?e s)" using Suc.prems(1) by (simp add: tame_def sound_upto_def)
    then show ?thesis using False by (auto simp: ask_def)
  next
    case True
    let ?t = "emit ?p (emit ?e s)"
    let ?u = "case gst_bus_pop E (trace ?t) of None \<Rightarrow> ?t
      | Some m \<Rightarrow> emit (Gst Message_unref) (handle_message E V m ?t)"
    have "tame F E (Suc k) ?t" using True Suc.prems(1) by (simp add: tame_def sound_upto_def)
    then have u: "tame F E (Suc k) ?u"
      using tame_handle_message [OF assms(1) _ courteousD(3) [OF courteous [OF assms(1)]], of "Suc k" ?t]
      by (auto split: option.split)
    have "Suc k < loop_bound E" using courteousD(6) [OF courteous [OF assms(1)] True] Suc.prems(1) by (simp add: tame_def)
    then have n: "loop_bound E \<le> Suc k + n" "0 < n" using Suc.prems(2) by simp_all
    have "bus_loop (Suc n) E V s = bus_loop n E V ?u"
      using True by (simp add: ask_def split: option.split)
    then show ?thesis using Suc.IH [OF u n] by simp
  qed
qed simp

lemma tame_consume_frame: "lawful_env \<Longrightarrow> tame F E k s \<Longrightarrow> tame F E k (consume_frame V s)"
  by (simp add: consume_frame_def Let_def hook_frame)

lemma tame_update:
  assumes "lawful_env" and "tame F E k s"
  shows "\<exists>k. tame F E k (update E V s)"
proof -
  let ?s = "onBeforeUpdate V s"
  obtain j where j: "tame F E j ?s" using hook_update [OF assms] by blast
  then obtain i where "tame F E i (bus_loop (loop_bound E) E V ?s)"
    using tame_bus_loop [OF assms(1) j, of "loop_bound E"] courteousD(7) [OF courteous [OF assms(1)]] by auto
  then show ?thesis using j tame_consume_frame [OF assms(1)] by (auto simp: update_def Let_def)
qed

subsection \<open>Every run\<close>

lemma tame_exec_op:
  assumes "lawful_env" and "tame F E k s" and "numeric op"
  shows "\<exists>k. tame F E k (exec_op E V op s)"
proof (cases "op = Op_update")
  case True
  then show ?thesis using tame_update [OF assms(1,2)] by simp
next
  case False
  then have "tame F E k (exec_op E V op s)" using assms
    by (cases op) (simp_all add: tame_open_sized tame_open_bgra tame_open_fmt tame_open_auto tame_close
        tame_stop tame_play replay_def pause_def tame_setState tame_queryState tame_setLoop hook_time
        tame_getTime tame_setVolume tame_getVolume tame_setMute tame_onPreroll tame_onSample)
  then show ?thesis ..
qed

lemma tame_run:
  assumes "lawful_env" and "tame F E k s" and "list_all numeric ops"
  shows "\<exists>k. tame F E k (run E V ops s)"
  using assms(2,3)
proof (induction ops arbitrary: k s)
  case (Cons op ops)
  obtain j where "tame F E j (exec_op E V op s)"
    using tame_exec_op [OF assms(1) Cons.prems(1), of op] Cons.prems(2) by auto
  from Cons.IH [OF this] show ?case using Cons.prems(2) by (simp add: run_def)
qed (auto simp: run_def)

end

section \<open>The player\<close>

interpretation plain_sound: sound_hooks F E "player_vtable E" "courteous E" for F E
  by unfold_locales (auto simp: player_vtable_def tame_setTime)

lemma tame_Player_ctor: "trace s = [] \<Longrightarrow> tame F E 0 (Player_ctor E s)"
proof -
  assume s: "trace s = []"
  let ?s = "Player_reset (s\<lparr>mLoop := False, mMute := False\<rparr>)"
  have "tame F E 0 ?s" using s by (simp add: tame_def sound_upto_def Player_reset_def small_zero)
  then show ?thesis
    by (auto simp: Player_ctor_def Let_def split: prod.split dest: gstreamerInitialized_tame)
qed


text \<open>A bus that is busy at first keeps to the contract.\<close>

definition busy_start :: env where
  "busy_start = calm\<lparr>gst_bus_have_pending := (\<lambda>h. length h < 60), gst_bus_pop := (\<lambda>_. Some Msg_eos)\<rparr>"

lemma burst_le_length: "burst E h \<le> length h"
  by (induction h rule: burst.induct) auto

lemma busy_start_courteous: "courteous busy_start"
proof -
  have "\<not> Suc (length h) < 60" if "99 \<le> burst E h" for E h using burst_le_length [of E h] that by linarith
  then show ?thesis by (auto simp: courteous_def busy_start_def simp del: not_less)
qed


end
