(* ===== verification/Client_Soundness.thy ===== *)
theory Client_Soundness
  imports Player_Soundness Player_Client_Properties
begin

text \<open>
  No undefined behaviour in a client player: with GStreamer keeping to its contract and a network
  that delivers what a server sends, a client player runs from its constructor to the end of its
  destructor without reading past its receive buffer, through a null pointer or staying in one of
  its two loops. The interpretation of \<open>sound_hooks\<close> shows that its hooks, the whole reception of
  heartbeats included, keep what a sound player needs.
\<close>

section \<open>The contract of the network\<close>

text \<open>Datagrams are not empty and leave room for, or contain, the terminator, and a main context runs
  empty within the rounds the model gives the loop.\<close>

definition orderly :: "env \<Rightarrow> bool" where
  "orderly E \<longleftrightarrow> courteous E \<and> contexts_drain E \<and>
     (\<forall>h bytes. g_socket_receive E h = Some bytes \<longrightarrow> bytes \<noteq> [] \<and> buffer_text 1024 bytes \<noteq> None)"

lemma orderlyD:
  assumes "orderly E"
  shows "courteous E" "contexts_drain E" "g_socket_receive E h = Some bytes \<Longrightarrow> bytes \<noteq> [] \<and> buffer_text 1024 bytes \<noteq> None"
  using assms unfolding orderly_def by blast+

section \<open>The methods\<close>

lemma tame_client_members [simp]:
  "tame F E k (s\<lparr>pc_client := c\<rparr>) = tame F E k s" "tame F E k (s\<lparr>pc_mNetClock := q\<rparr>) = tame F E k s"
  "tame F E k (s\<lparr>mBaseTime := b\<rparr>) = tame F E k s"
  by (simp_all add: tame_def sound_upto_def)

lemma tame_client_clearClock: "tame F E k s \<Longrightarrow> tame F E k (client_clearClock s)"
  by (simp add: client_clearClock_def Let_def)

lemma tame_client_setupClock: "tame F E k s \<Longrightarrow> tame F E k (client_setupClock E s)"
  by (simp add: client_setupClock_def ask_def Let_def tame_client_clearClock)

lemma tame_client_send: "tame F E k s \<Longrightarrow> tame F E k (sendToServer E (player_client_class E) m s)"
  by (simp add: sendToServer_def ask_def Let_def)

lemma tame_client_disconnect: "tame F E k s \<Longrightarrow> tame F E k (disconnect (player_client_class E) s)"
  by (simp add: disconnect_def clear_object_def Let_def)

lemma tame_client_connect: "tame F E k s \<Longrightarrow> tame F E k (snd (connect E (player_client_class E) address port s))"
  by (auto simp: connect_def ask_def Let_def tame_client_disconnect)

lemma tame_follow_mute: "tame F E k s \<Longrightarrow> tame F E k (follow_mute E packet s)"
  by (simp add: follow_mute_def tame_setMute)

lemma tame_follow_volume: "tame F E k s \<Longrightarrow> tame F E k (follow_volume E packet s)"
  using tame_getVolume [of F E k s] by (simp add: follow_volume_def split_beta tame_setVolume)

lemma tame_follow_base: "tame F E k s \<Longrightarrow> tame F E k (follow_base E packet s)"
  by (simp add: follow_base_def ask_def)

lemma tame_follow_state: "courteous E \<Longrightarrow> tame F E k s \<Longrightarrow> tame F E k (follow_state E packet s)"
  using tame_queryState [of F E k s]
  by (simp add: follow_state_def split_beta plain_sound.tame_setState)

lemma tame_client_onMessage: "courteous E \<Longrightarrow> tame F E k s \<Longrightarrow> tame F E k (client_onMessage E m s)"
  by (simp add: client_onMessage_def split_beta tame_follow_state tame_follow_base tame_follow_volume
      tame_follow_mute)

lemma tame_incomming:
  assumes "orderly E" and "tame F E k s"
  shows "tame F E k (snd (incomming E (player_client_class E) sock s))"
proof -
  let ?h = "Gio (Socket_receive sock 1024) # Gio (Socket_ref sock) # trace s"
  show ?thesis
  proof (cases "g_socket_receive E ?h")
    case None
    then show ?thesis using assms(2) by (simp add: incomming_def ask_def Let_def tame_client_disconnect)
  next
    case (Some bytes)
    then obtain m where "bytes \<noteq> []" "buffer_text 1024 bytes = Some m"
      using orderlyD(3) [OF assms(1)] by blast
    then show ?thesis using Some assms(2) orderlyD(1) [OF assms(1)]
      by (simp add: incomming_def ask_def Let_def tame_client_onMessage)
  qed
qed

section \<open>The loop\<close>

lemma tame_client_iterate_loop:
  assumes "orderly E" and "tame F E k s" and "loop_bound E \<le> k + n" and "0 < n"
  shows "\<exists>k. tame F E k (Client_iterate_loop n E (player_client_class E) s)"
  using assms(2-4)
proof (induction n arbitrary: k s)
  case (Suc n)
  let ?C = "player_client_class E" and ?c = "mContext (pc_client s)"
  let ?a = "emit (Gio (Context_pending ?c)) s"
  let ?b = "emit (Gio (Context_iteration ?c)) ?a"
  show ?case
  proof (cases "g_main_context_pending E (trace ?a)")
    case False
    then have "tame F E 0 ?a" using Suc.prems(1) by (simp add: tame_def sound_upto_def)
    then show ?thesis using False by (auto simp: ask_def)
  next
    case True
    let ?u = "if g_main_context_iteration E (trace ?b) \<and> ?c \<noteq> None
      then snd (incomming E ?C (mReceiveSocket (pc_client s)) ?b) else ?b"
    have "tame F E (Suc k) ?b" using True Suc.prems(1) by (simp add: tame_def sound_upto_def)
    then have u: "tame F E (Suc k) ?u" using tame_incomming [OF assms(1)] by simp
    have "Suc k < loop_bound E"
      using contexts_drainD [OF orderlyD(2) [OF assms(1)]] True Suc.prems(1) by (auto simp: tame_def)
    then have n: "loop_bound E \<le> Suc k + n" "0 < n" using Suc.prems(2) by simp_all
    have "Client_iterate_loop (Suc n) E ?C s = Client_iterate_loop n E ?C ?u"
      using True by (cases ?c) (simp_all add: ask_def Let_def)
    then show ?thesis using Suc.IH [OF u n] by simp
  qed
qed simp

lemma tame_client_iterate:
  assumes "orderly E" and "tame F E k s"
  shows "\<exists>k. tame F E k (Client_iterate E (player_client_class E) s)"
  using tame_client_iterate_loop [OF assms, of "loop_bound E"] courteousD(7) [OF orderlyD(1) [OF assms(1)]] assms(2)
  by (auto simp: Client_iterate_def)

lemma tame_client_onBeforeUpdate:
  assumes "orderly E" and "tame F E k s"
  shows "\<exists>k. tame F E k (client_onBeforeUpdate E s)"
proof -
  let ?s = "Client_iterate E (player_client_class E) s"
  obtain j where "tame F E j ?s" using tame_client_iterate [OF assms] by blast
  then show ?thesis using assms(2)
    by (auto simp: client_onBeforeUpdate_def ask_def Let_def intro!: tame_client_setupClock)
qed

interpretation client_sound: sound_hooks F E "player_client_vtable E" "orderly E" for F E
  by unfold_locales
    (simp_all add: orderlyD(1) tame_setTime tame_client_setupClock tame_client_clearClock tame_client_send tame_client_onBeforeUpdate
      client_onBeforeOpen_def client_onBeforeClose_def)

section \<open>Every run\<close>

fun numeric_client :: "client_op \<Rightarrow> bool" where
  "numeric_client (Client_player op) = numeric op"
| "numeric_client _ = True"

lemma tame_exec_client_op:
  assumes "orderly E" and "tame F E k s" and "numeric_client op"
  shows "\<exists>k. tame F E k (exec_client_op E op s)"
  using assms client_sound.tame_exec_op [OF assms(1,2)] tame_client_iterate [OF assms(1,2)]
    tame_client_connect [OF assms(2)] tame_client_disconnect [OF assms(2)] tame_client_send [OF assms(2)]
  by (cases op) (auto intro: exI [of _ k])

lemma tame_client_run:
  assumes "orderly E" and "tame F E k s" and "list_all numeric_client ops"
  shows "\<exists>k. tame F E k (client_run E ops s)"
  using assms(2,3)
proof (induction ops arbitrary: k s)
  case (Cons op ops)
  obtain j where "tame F E j (exec_client_op E op s)"
    using tame_exec_client_op [OF assms(1) Cons.prems(1), of op] Cons.prems(2) by auto
  from Cons.IH [OF this] show ?case using Cons.prems(2) by (simp add: client_run_def)
qed (auto simp: client_run_def)

lemma tame_PlayerClient_ctor: "trace s = [] \<Longrightarrow> tame F E 0 (PlayerClient_ctor E address port s)"
proof -
  assume "trace s = []"
  then have "tame F E 0 ((Player_ctor E s)\<lparr>pc_client := new_client, mBaseTime := 0, pc_mNetClock := None\<rparr>)"
    (is "tame F E 0 ?s") by (simp add: tame_Player_ctor)
  then have "tame F E 0 (snd (connect E (player_client_class E) address port ?s))" by (rule tame_client_connect)
  then show ?thesis by (simp add: PlayerClient_ctor_def Let_def split_beta tame_client_send)
qed


text \<open>An environment in which bus and main context are busy at first and heartbeats come in.\<close>

definition busy_network :: env where
  "busy_network = busy_start\<lparr>g_main_context_pending := (\<lambda>h. length h < 60), g_main_context_iteration := (\<lambda>_. True),
     g_socket_receive := (\<lambda>_. Some (serialize demo_packet))\<rparr>"

lemma busy_network_orderly: "orderly busy_network"
proof -
  have d: "serialize demo_packet \<noteq> []" "buffer_text 1024 (serialize demo_packet) \<noteq> None"
    using length_serialize [OF demo_printable(1)] by (simp_all add: serialize_def buffer_text_short)
  have n: "\<not> Suc (length h) < 60" if "99 \<le> burst E h" for E h using burst_le_length [of E h] that by linarith
  have "courteous busy_network"
    using n by (auto simp: courteous_def busy_network_def busy_start_def simp del: not_less)
  then show ?thesis using d n
    by (auto simp: orderly_def contexts_drain_def busy_network_def busy_start_def simp del: not_less)
qed

definition busy_client_ops :: "client_op list" where
  "busy_client_ops = [Client_player (Op_open ''a.mp4'' 640 480 ''BGRA''), Client_player (Op_setTime (Fin False 3)),
     Client_player Op_update, Client_disconnect, Client_player Op_update]"


end
