(* ===== verification/Server_Soundness.thy ===== *)
theory Server_Soundness
  imports Player_Soundness Player_Server_Properties
begin

text \<open>
  Undefined behaviour in a server player: with GStreamer and the network keeping to their contracts,
  the conversion of a seek distance to an unsigned time, which fails for every seek forward, is the
  only one a server player can run into, from its constructor to the end of its destructor.
\<close>

section \<open>The contract of the network\<close>

text \<open>What a client sends fits the read buffer, or contains a terminator.\<close>

definition serviceable :: "env \<Rightarrow> bool" where
  "serviceable E \<longleftrightarrow> courteous E \<and> contexts_drain E \<and>
     (\<forall>h bytes. g_input_stream_read E h = Some bytes \<longrightarrow> buffer_text 16 bytes \<noteq> None)"

lemma serviceableD:
  assumes "serviceable E"
  shows "courteous E" "contexts_drain E" "g_input_stream_read E h = Some bytes \<Longrightarrow> buffer_text 16 bytes \<noteq> None"
  using assms unfolding serviceable_def by blast+

section \<open>The methods of the server part\<close>

lemma tame_server_members [simp]:
  "tame F E k (s\<lparr>ps_server := c\<rparr>) = tame F E k s" "tame F E k (s\<lparr>ps_mNetClock := q\<rparr>) = tame F E k s"
  "tame F E k (s\<lparr>mNetProvider := q\<rparr>) = tame F E k s" "tame F E k (s\<lparr>mPendingCurrentTime := u\<rparr>) = tame F E k s"
  "tame F E k (s\<lparr>mPendingStateSeek := d\<rparr>) = tame F E k s" "tame F E k (s\<lparr>mPendingState := x\<rparr>) = tame F E k s"
  "tame F E k (s\<lparr>mHeartbeatCounter := n\<rparr>) = tame F E k s" "tame F E k (s\<lparr>mHeartbeatFrequency := n\<rparr>) = tame F E k s"
  by (simp_all add: tame_def sound_upto_def)

lemma tame_endpoint_send: "tame F E k s \<Longrightarrow> tame F E k (UdpEndpoint_send E m n ep s)"
  by (simp add: UdpEndpoint_send_def ask_def Let_def)

lemma tame_server_broadcast:
  assumes "tame F E k s"
  shows "tame F E k (broadcastToClients E player_server_class m s)"
proof -
  have "tame F E k (fold (\<lambda>ip s. case map_of eps ip of None \<Rightarrow> s | Some ep \<Rightarrow> UdpEndpoint_send E m 1 ep s) ips s)"
    for eps and ips :: "string list"
    using assms by (induction ips arbitrary: s) (auto split: option.split intro: tame_endpoint_send)
  then show ?thesis using assms by (simp add: broadcastToClients_def Let_def)
qed

lemma tame_server_learn_endpoint: "tame F E k s \<Longrightarrow> tame F E k (learn_endpoint E player_server_class ip s)"
  by (simp add: learn_endpoint_def UdpEndpoint_setup_def ask_def Let_def split_beta)

lemma tame_server_getIp: "tame F E k s \<Longrightarrow> tame F E k (snd (getIp E s))"
  by (simp add: getIp_def ask_def Let_def split: option.split)

lemma tame_server_incoming:
  assumes "serviceable E" and "tame F E k s"
  shows "tame F E k (Server_incoming E player_server_class s)"
proof -
  let ?t = "emit (Gio (Stream_read 16)) (emit (Gio Get_input_stream) s)"
  let ?u = "learn_endpoint E player_server_class (fst (getIp E ?t)) (snd (getIp E ?t))"
  have u: "tame F E k ?u" using assms(2) by (intro tame_server_learn_endpoint tame_server_getIp) simp
  show ?thesis
  proof (cases "g_input_stream_read E (trace ?t)")
    case None
    then show ?thesis using assms(2) by (simp add: Server_incoming_def ask_def Let_def)
  next
    case (Some bytes)
    then obtain m where "buffer_text 16 bytes = Some m" using serviceableD(3) [OF assms(1)] by blast
    then show ?thesis using Some assms(2) u by (simp add: Server_incoming_def ask_def Let_def split_beta)
  qed
qed

lemma tame_server_iterate_loop:
  assumes "serviceable E" and "tame F E k s" and "loop_bound E \<le> k + n" and "0 < n"
  shows "\<exists>k. tame F E k (Server_iterate_loop n E player_server_class s)"
  using assms(2-4)
proof (induction n arbitrary: k s)
  case (Suc n)
  let ?a = "emit (Gio (Context_pending None)) s"
  let ?b = "emit (Gio (Context_iteration None)) ?a"
  show ?case
  proof (cases "g_main_context_pending E (trace ?a)")
    case False
    then have "tame F E 0 ?a" using Suc.prems(1) by (simp add: tame_def sound_upto_def)
    then show ?thesis using False by (auto simp: ask_def)
  next
    case True
    let ?u = "if g_main_context_iteration E (trace ?b) then Server_incoming E player_server_class ?b else ?b"
    have "tame F E (Suc k) ?b" using True Suc.prems(1) by (simp add: tame_def sound_upto_def)
    then have u: "tame F E (Suc k) ?u" using tame_server_incoming [OF assms(1)] by simp
    have "Suc k < loop_bound E"
      using contexts_drainD [OF serviceableD(2) [OF assms(1)]] True Suc.prems(1) by (auto simp: tame_def)
    then have n: "loop_bound E \<le> Suc k + n" "0 < n" using Suc.prems(2) by simp_all
    have "Server_iterate_loop (Suc n) E player_server_class s = Server_iterate_loop n E player_server_class ?u"
      using True by (simp add: ask_def Let_def)
    then show ?thesis using Suc.IH [OF u n] by simp
  qed
qed simp

lemma tame_server_iterate:
  assumes "serviceable E" and "tame F E k s"
  shows "\<exists>k. tame F E k (Server_iterate E player_server_class s)"
  using tame_server_iterate_loop [OF assms, of "loop_bound E"] courteousD(7) [OF serviceableD(1) [OF assms(1)]]
  by (simp add: Server_iterate_def)

lemma tame_server_isListening: "tame F E k s \<Longrightarrow> tame F E k (snd (isListening E player_server_class s))"
  by (simp add: isListening_def ask_def split: option.split)

lemma tame_server_shutdown: "tame F E k s \<Longrightarrow> tame F E k (shutdown E player_server_class s)"
  using tame_server_isListening [of F E k s] by (simp add: shutdown_def split_beta Let_def)

lemma tame_server_listen:
  assumes "tame F E k s"
  shows "tame F E k (snd (listen E player_server_class address port s))"
  using tame_server_isListening [OF assms] tame_server_shutdown [OF tame_server_isListening [OF assms]]
  by (auto simp: listen_def ask_def Let_def split_beta intro!: tame_server_isListening)

lemma tame_Server_dtor:
  assumes "tame F E k s"
  shows "tame F E k (Server_dtor E player_server_class s)"
proof -
  have "tame F E k (UdpEndpoint_dtor ep u)" if "tame F E k u" for ep and u :: player_server
    using that by (simp add: UdpEndpoint_dtor_def Let_def)
  then have "tame F E k (fold (\<lambda>ip s. case map_of eps ip of None \<Rightarrow> s | Some ep \<Rightarrow> UdpEndpoint_dtor ep s) ips t)"
    if "tame F E k t" for eps and ips :: "string list" and t :: player_server
    using that by (induction ips arbitrary: t) (simp_all split: option.split)
  then show ?thesis
    using tame_server_isListening [OF assms] tame_server_shutdown [OF tame_server_isListening [OF assms]]
    by (simp add: Server_dtor_def Let_def split_beta)
qed

section \<open>The hooks\<close>

lemma tame_server_heartbeat: "tame F E k s \<Longrightarrow> tame F E k (dispatchHeartbeat E s)"
  using tame_getTime [of F E k s] tame_getVolume [of F E k "snd (getTime E s)"]
  by (simp add: dispatchHeartbeat_def heartbeat_packet_def ask_def Let_def split_beta tame_server_broadcast)

lemma tame_server_clearClock: "tame F E k s \<Longrightarrow> tame F E k (server_clearClock s)"
  by (simp add: server_clearClock_def Let_def)

lemma tame_server_setupClock: "tame F E k s \<Longrightarrow> tame F E k (server_setupClock E s)"
  by (simp add: server_setupClock_def ask_def Let_def tame_server_clearClock)

lemma tame_server_setTime: "tame F E k s \<Longrightarrow> tame F E k (server_setTime E t s)"
  by (simp add: server_setTime_def ask_def Let_def split_beta tame_queryState)

lemma tame_onBeforeSetState: "tame F E k s \<Longrightarrow> tame F E k (server_onBeforeSetState E st s)"
  using tame_getTime [of F E k s] by (simp add: server_onBeforeSetState_def split_beta)

lemma tame_onStateChanged: "tame F E k s \<Longrightarrow> tame F E k (server_onStateChanged E st s)"
  using tame_queryState [of F E k s]
  by (simp add: server_onStateChanged_def split_beta Let_def tame_server_setTime)

text \<open>The one conversion that may fail.\<close>

abbreviation seek_fault :: "string set" where
  "seek_fault \<equiv> {''GstClockTime conversion out of range''}"

lemma tame_pending_seek: "tame seek_fault E k s \<Longrightarrow> tame seek_fault E k (pending_seek_step E s)"
  by (auto simp: pending_seek_step_def perform_seek_def ask_def Let_def split: option.split)

lemma tame_server_onBeforeUpdate:
  assumes "serviceable E" and "tame seek_fault E k s"
  shows "\<exists>k. tame seek_fault E k (server_onBeforeUpdate E s)"
proof -
  obtain j where j: "tame seek_fault E j (Server_iterate E player_server_class s)"
    using tame_server_iterate [OF assms] by blast
  then have "tame seek_fault E j (pending_seek_step E (heartbeat_step E (Server_iterate E player_server_class s)))"
    by (intro tame_pending_seek) (simp add: heartbeat_step_def tame_server_heartbeat)
  then show ?thesis using assms(2) by (auto simp: server_onBeforeUpdate_def Let_def)
qed

interpretation server_sound: sound_hooks seek_fault E "player_server_vtable E" "serviceable E" for E
  by unfold_locales
    (simp_all add: serviceableD(1) tame_server_setTime tame_server_setupClock tame_server_clearClock tame_server_onBeforeUpdate
      tame_onBeforeSetState tame_onStateChanged server_onBeforeClose_def)

section \<open>Every run\<close>

fun numeric_server :: "server_op \<Rightarrow> bool" where
  "numeric_server (Server_player op) = numeric op"
| "numeric_server _ = True"

lemma tame_exec_server_op:
  assumes "serviceable E" and "tame seek_fault E k s" and "numeric_server op"
  shows "\<exists>k. tame seek_fault E k (exec_server_op E op s)"
  using assms server_sound.tame_exec_op [OF assms(1,2)] tame_server_iterate [OF assms(1,2)]
    tame_server_listen [OF assms(2)] tame_server_shutdown [OF assms(2)] tame_server_broadcast [OF assms(2)]
  by (cases op) (auto simp: setHeartbeatFrequency_def intro: exI [of _ k])

lemma tame_server_run:
  assumes "serviceable E" and "tame seek_fault E k s" and "list_all numeric_server ops"
  shows "\<exists>k. tame seek_fault E k (server_run E ops s)"
  using assms(2,3)
proof (induction ops arbitrary: k s)
  case (Cons op ops)
  obtain j where "tame seek_fault E j (exec_server_op E op s)"
    using tame_exec_server_op [OF assms(1) Cons.prems(1), of op] Cons.prems(2) by auto
  from Cons.IH [OF this] show ?case using Cons.prems(2) by (simp add: server_run_def)
qed (auto simp: server_run_def)

lemma tame_PlayerServer_ctor: "trace s = [] \<Longrightarrow> tame F E 0 (PlayerServer_ctor E address port s)"
proof -
  assume s: "trace s = []"
  define t where "t = (Player_ctor E s)\<lparr>ps_server := new_server, ps_mNetClock := None, mNetProvider := None,
    mHeartbeatCounter := 0, mHeartbeatFrequency := 30, mPendingStateSeek := - 1,
    mPendingState := GST_STATE_NULL, mPendingCurrentTime := GST_CLOCK_TIME_NONE\<rparr>"
  have "tame F E 0 t" unfolding t_def using tame_Player_ctor [OF s] by simp
  then have "tame F E 0 (snd (listen E player_server_class address port t))" by (rule tame_server_listen)
  then show ?thesis by (simp add: PlayerServer_ctor_def Let_def split_beta t_def [symmetric])
qed


text \<open>An environment in which bus and main context are busy at first and clients connect.\<close>

definition busy_service :: env where
  "busy_service = busy_start\<lparr>g_main_context_pending := (\<lambda>h. length h < 60), g_main_context_iteration := (\<lambda>_. True)\<rparr>"

lemma busy_service_serviceable: "serviceable busy_service"
proof -
  have n: "\<not> Suc (length h) < 60" if "99 \<le> burst E h" for E h using burst_le_length [of E h] that by linarith
  have "courteous busy_service"
    using n by (auto simp: courteous_def busy_service_def busy_start_def simp del: not_less)
  then show ?thesis using n
    by (auto simp: serviceable_def contexts_drain_def busy_service_def busy_start_def buffer_text_short
        simp del: not_less)
qed

definition busy_server_ops :: "server_op list" where
  "busy_server_ops = [Server_iterate_call, Server_player (Op_open ''a.mp4'' 640 480 ''BGRA''),
     Server_player (Op_setTime (Fin False 3)), Server_player Op_update, Server_player Op_update, Server_shutdown]"


end
