(* ===== verification/Nsvr.thy ===== *)
theory Nsvr
  imports Internal
begin

text \<open>
  The entry points of the library in \<open>source/nsvr.cpp\<close>: the version string, the plug-in path, the
  listing of the loaded modules and the default server.
\<close>

section \<open>Version\<close>

definition NSVR_VERSION_MAJOR :: string where "NSVR_VERSION_MAJOR = ''1''"
definition NSVR_VERSION_MINOR :: string where "NSVR_VERSION_MINOR = ''0''"
definition NSVR_VERSION_PATCH :: string where "NSVR_VERSION_PATCH = ''0''"

text \<open>The four macros of GStreamer's version are parameters, as the texts they expand to.\<close>

definition getVersion :: "string \<Rightarrow> string \<Rightarrow> string \<Rightarrow> string \<Rightarrow> string" where
  "getVersion gst_major gst_minor gst_micro gst_nano =
     NSVR_VERSION_MAJOR @ ''.'' @ NSVR_VERSION_MINOR @ ''.'' @ NSVR_VERSION_PATCH @ ''_'' @
     gst_major @ ''.'' @ gst_minor @ ''.'' @ gst_micro @ ''.'' @ gst_nano"

section \<open>Plug-in path\<close>

definition addPluginPath :: "env \<Rightarrow> string \<Rightarrow> 'a world_scheme \<Rightarrow> 'a world_scheme" where
  "addPluginPath E path s =
     (if path = [] then NSVR_LOG ''Plug-in path supplied is empty.'' s
      else
        (let (ok, s) = gstreamerInitialized E s in
         if \<not> ok then NSVR_LOG ''GStreamer could not be initialized.'' s
         else
           (let (registry, s) = ask (gst_registry_get E) (Gst Registry_get) s
            in if registry then emit (Gst (Registry_scan_path (c_str path))) s else s)))"

section \<open>The default server\<close>

record DefaultServer =
  port :: int16
  enabled :: bool

definition new_DefaultServer :: "int16 \<Rightarrow> DefaultServer" where
  "new_DefaultServer p = \<lparr>port = p, enabled = True\<rparr>"

text \<open>The function-level static is \<open>None\<close> until the first call.\<close>

definition getDefaultServer :: "DefaultServer option \<Rightarrow> DefaultServer \<times> DefaultServer option" where
  "getDefaultServer inst =
     (case inst of None \<Rightarrow> (new_DefaultServer 5000, Some (new_DefaultServer 5000)) | Some d \<Rightarrow> (d, Some d))"

section \<open>Modules\<close>

text \<open>The constants of the Windows headers and of the function: the number of handles in \<open>hMods\<close>.\<close>

definition MAX_PATH :: nat where "MAX_PATH = 260"
definition hMods_count :: nat where "hMods_count = 2056"

text \<open>\<open>EnumProcessModules\<close> stores as many handles as fit into the array, which is zero before, and
  counts the bytes that all modules need in \<open>cbNeeded\<close>, a \<open>DWORD\<close>.\<close>

definition hMods :: "nat list \<Rightarrow> nat list" where
  "hMods modules = take hMods_count (modules @ replicate hMods_count 0)"

definition cbNeeded :: "nat \<Rightarrow> nat list \<Rightarrow> uint32" where
  "cbNeeded handle_size modules = of_nat (length modules * handle_size)"

text \<open>One round of the loop; an index past the array is read out of bounds.\<close>

definition list_module :: "env \<Rightarrow> nat list \<Rightarrow> nat \<Rightarrow> 'a world_scheme \<Rightarrow> 'a world_scheme" where
  "list_module E array i s =
     (if i < length array then
        (let (name, s) = ask (get_module_file_name E) (Win (Get_module_file_name (array ! i) MAX_PATH)) s
         in case name of None \<Rightarrow> s | Some szModName \<Rightarrow> NSVR_LOG (c_str szModName) s)
      else emit (Fault ''hMods read out of bounds'') s)"

text \<open>\<open>windows\<close> is the compile-time \<open>_WIN32\<close> and \<open>handle_size\<close> the size of a handle; outside Windows the
  body is empty.\<close>

definition listModules :: "env \<Rightarrow> bool \<Rightarrow> nat \<Rightarrow> 'a world_scheme \<Rightarrow> 'a world_scheme" where
  "listModules E windows handle_size s =
     (if \<not> windows then s
      else
        (let s = NSVR_LOG ''******************* START MODULES'' s;
             (modules, s) = ask (enum_process_modules E) (Win (Enum_process_modules (hMods_count * handle_size))) s;
             s = (case modules of
                    None \<Rightarrow> s
                  | Some ms \<Rightarrow> fold (list_module E (hMods ms)) [0 ..< unat (cbNeeded handle_size ms) div handle_size] s)
         in NSVR_LOG ''******************* END MODULES'' s))"

section \<open>Correctness\<close>

text \<open>The version names its seven parts: splitting it at the dots gives them back.\<close>

lemma getVersion_parts:
  assumes "\<forall>s \<in> {gst_major, gst_minor, gst_micro, gst_nano}. CHR ''.'' \<notin> set s"
  shows "explode (getVersion gst_major gst_minor gst_micro gst_nano) CHR ''.'' =
    [''1'', ''0'', ''0_'' @ gst_major, gst_minor, gst_micro, gst_nano]"
proof -
  have "getVersion gst_major gst_minor gst_micro gst_nano =
    implode [''1'', ''0'', ''0_'' @ gst_major, gst_minor, gst_micro, gst_nano] ''.''"
    by (simp add: getVersion_def NSVR_VERSION_MAJOR_def NSVR_VERSION_MINOR_def NSVR_VERSION_PATCH_def
        implode_def)
  then show ?thesis using assms by (simp only:) (rule explode_implode_aux, auto)
qed

text \<open>The plug-in path. The registry is scanned only for a path that is not empty, once GStreamer is
  initialised, at most once and with exactly that path; in every other case nothing is scanned.\<close>

lemma addPluginPath_scans_once:
  assumes "trace s = []" and "t = addPluginPath E path s"
  shows "filter (\<lambda>e. case e of Gst (Registry_scan_path _) \<Rightarrow> True | _ \<Rightarrow> False) (trace t) =
      (if path \<noteq> [] \<and> fst (gstreamerInitialized E s) \<and>
        gst_registry_get E (Gst Registry_get # trace (snd (gstreamerInitialized E s)))
       then [Gst (Registry_scan_path (c_str path))] else [])"
  using assms
  by (auto simp: addPluginPath_def gstreamerInitialized_def ask_def Let_def)

text \<open>The modules. The number of rounds is the number of modules, as long as their handles are counted
  by 32 bits.\<close>

lemma rounds:
  "0 < n \<Longrightarrow> length ms * n < 2 ^ 32 \<Longrightarrow> unat (cbNeeded n ms) div n = length ms"
  by (simp add: cbNeeded_def unat_of_nat take_bit_eq_mod del: of_nat_mult)

lemma hMods_nth: "i < length ms \<Longrightarrow> i < hMods_count \<Longrightarrow> i < length (hMods ms) \<and> hMods ms ! i = ms ! i"
  by (simp add: hMods_def nth_append)

lemma length_hMods: "length (hMods ms) = hMods_count"
  by (simp add: hMods_def)

text \<open>The names a trace has logged, oldest first.\<close>

fun logged :: "event list \<Rightarrow> string list" where
  "logged [] = []"
| "logged (Logged m # h) = logged h @ [m]"
| "logged (_ # h) = logged h"

lemma list_modules_logged:
  assumes "\<And>m h. get_module_file_name E (Win (Get_module_file_name m MAX_PATH) # h) = name m"
    and "length ms \<le> hMods_count" and "n \<le> length ms" and "sound s"
  shows "logged (trace (fold (list_module E (hMods ms)) [0 ..< n] s)) =
      logged (trace s) @ map c_str (List.map_filter name (take n ms)) \<and>
    sound (fold (list_module E (hMods ms)) [0 ..< n] s)"
  using assms(3)
proof (induction n)
  case 0
  then show ?case using assms(4) by (simp add: map_filter_def)
next
  case (Suc n)
  let ?t = "fold (list_module E (hMods ms)) [0 ..< n] s"
  have n: "n < length (hMods ms)" "hMods ms ! n = ms ! n"
    using hMods_nth [of n ms] Suc.prems assms(2) by simp_all
  have "list_module E (hMods ms) n ?t =
    (let u = emit (Win (Get_module_file_name (ms ! n) MAX_PATH)) ?t in
     case name (ms ! n) of None \<Rightarrow> u | Some m \<Rightarrow> NSVR_LOG (c_str m) u)"
    using n by (simp add: list_module_def ask_def assms(1) Let_def)
  then show ?case using Suc
    by (auto simp: take_Suc_conv_app_nth map_filter_def sound_def Let_def split: option.split)
qed

lemma list_module_fault: "length array \<le> i \<Longrightarrow> \<not> sound (list_module E array i s)"
  by (simp add: list_module_def sound_def)

text \<open>C33: listing the modules. As long as the modules fit into the array of 2056 handles, the list has
  their names, in order and each up to its first zero byte, between the two marks, a module whose name cannot
  be read being left out, and nothing undefined happens. One module more, and the loop, which is bounded
  by the bytes that all modules need and not by the array, reads past the array.\<close>

theorem listModules_correct:
  assumes "\<And>m h. get_module_file_name E (Win (Get_module_file_name m MAX_PATH) # h) = name m"
    and "\<And>h. enum_process_modules E (Win (Enum_process_modules (hMods_count * handle_size)) # h) = Some ms"
    and "0 < handle_size" and "length ms * handle_size < 2 ^ 32" and "sound s"
    and "t = listModules E True handle_size s"
  shows "(sound t \<longleftrightarrow> length ms \<le> hMods_count) \<and>
    (length ms \<le> hMods_count \<longrightarrow>
      logged (trace t) = logged (trace s) @ [''******************* START MODULES''] @
        map c_str (List.map_filter name ms) @ [''******************* END MODULES''])"
proof -
  define u where "u = emit (Win (Enum_process_modules (hMods_count * handle_size)))
    (NSVR_LOG ''******************* START MODULES'' s)"
  let ?v = "\<lambda>n. fold (list_module E (hMods ms)) [0 ..< n] u"
  have t: "t = NSVR_LOG ''******************* END MODULES'' (?v (length ms))"
    by (simp add: assms(6) listModules_def ask_def Let_def assms(2) u_def rounds [OF assms(3,4)])
  have u: "sound u" "logged (trace u) = logged (trace s) @ [''******************* START MODULES'']"
    using assms(5) by (simp_all add: u_def sound_def)
  show ?thesis
  proof (cases "length ms \<le> hMods_count")
    case True
    from list_modules_logged [OF assms(1) this order_refl u(1)] t u(2) True show ?thesis
      by (simp add: sound_def)
  next
    case False
    then obtain n where n: "length ms = Suc n" "hMods_count \<le> n" by (cases "length ms") auto
    then have "\<not> sound (?v (length ms))" by (simp add: list_module_fault length_hMods)
    then show ?thesis using False t by (simp add: sound_def)
  qed
qed

theorem listModules_correct_witness:
  "\<exists>s :: world. s = \<lparr>trace = [], saved_volume = 1\<rparr> \<and> sound (listModules calm True 8 s) \<and>
    logged (trace (listModules calm True 8 s)) = [''******************* START MODULES'', ''nsvr.dll'', ''nsvr.dll'',
      ''nsvr.dll'', ''******************* END MODULES'']"
proof -
  have "sound \<lparr>trace = [], saved_volume = 1\<rparr>" by (simp add: sound_def)
  from listModules_correct [of calm "\<lambda>_. Some ''nsvr.dll''" 8 "[100, 200, 300]", OF _ _ _ _ this HOL.refl]
  show ?thesis by (simp add: hMods_count_def map_filter_def c_str_def)
qed

end
