(* ===== verification/Spec2Isabelle.thy ===== *)
theory Spec2Isabelle
  imports Player_Properties Frame_Handoff Seek_Refinement Net_Ownership Network_Seek Convergence
    Client_Soundness Server_Soundness Nsvr
begin

text \<open>
  nsvr plays videos in step on several machines: a library over GStreamer with a player, a server
  player that publishes its clock and broadcasts heartbeats, and client players that follow them.
  This development models the C++ code under \<open>source/\<close> and \<open>include/\<close> and proves what makes its
  parts correct, alone and together.

  The parts of the program, and the theory of each.

    \<^item> \<open>Prelude\<close>: the machine integers (\<open>short\<close>, \<open>int\<close>, \<open>gint64\<close>, \<open>GstClockTime\<close> as words), C strings,
      scanning lemmas. \<open>Doubles\<close>: IEEE doubles as exact rationals with rounding, their order (\<open>feq\<close>
      is \<open>==\<close>), arithmetic and conversions to and from integers, undefined ones as \<open>None\<close>.
      \<open>Number_Text\<close>: \<open>stoi\<close>, \<open>stoull\<close>, \<open>stod\<close> and \<open>operator<<\<close> of the standard library, with the
      exceptions as the left summand of the result.
    \<^item> \<open>Platform\<close>: the boundary. Every call of GStreamer, GLib and GIO is an event appended to the trace
      of the process, and its answer is a function of the whole history, taken from the record \<open>env\<close>,
      which every theorem leaves arbitrary or constrains by named hypotheses. \<open>calm\<close> is the concrete
      environment of the witnesses.
    \<^item> \<open>Internal\<close> (\<open>nsvr_internal.hpp/.cpp\<close>, with \<open>BindToScope_dtor\<close> for the scope guards, which the
      definitions of the methods use where a scope ends), \<open>Packet_Handler\<close> (\<open>nsvr_packet_handler.cpp\<close>), \<open>Discoverer\<close>
      (\<open>nsvr_discoverer.cpp\<close>), \<open>Nsvr\<close> (\<open>nsvr.cpp\<close>).
    \<^item> \<open>Player\<close> (\<open>nsvr_player.cpp\<close>): the members as the record \<open>player\<close>, one definition per method, the
      virtual methods as the record \<open>vtable\<close> that the methods take as an argument. \<open>update\<close> is
      composed of \<open>bus_loop\<close>, \<open>handle_message\<close> and \<open>consume_frame\<close>, \<open>open\<close> of its stanzas; \<open>onPreroll\<close>
      and \<open>onSample\<close> are the callbacks of the streaming thread.
    \<^item> \<open>Client\<close> (\<open>nsvr_client.cpp\<close>) and \<open>Server\<close> (\<open>nsvr_server.cpp\<close>): base classes, their members reached
      through \<open>client_class\<close> and \<open>server_class\<close>, whose laws are the locales \<open>client_object\<close> and
      \<open>server_object\<close> over \<open>sub_object\<close>.
    \<^item> \<open>Player_Client\<close> (\<open>nsvr_player_client.cpp\<close>) and \<open>Player_Server\<close> (\<open>nsvr_player_server.cpp\<close>): records
      that extend \<open>player\<close> by the network part, with the vtables \<open>player_client_vtable\<close> and
      \<open>player_server_vtable\<close>.

  The theories of lemmas.

    \<^item> \<open>Player_Contract\<close>: the operations of a player as one type \<open>player_op\<close> and the interface between
      the player and its hooks. The locale \<open>player_effects\<close> says which primitive effects keep a
      predicate, \<open>player_contract\<close> adds the hooks; inside them every operation is shown to keep it,
      once. \<open>Player_Invariants\<close> interprets it with the frame slot, the seek protocol and the ownership
      of references (\<open>balance\<close>, \<open>lawful\<close>, \<open>held\<close>). \<open>client_members\<close> and \<open>server_members\<close> extend the
      contract to the members of the derived classes, \<open>client_network\<close> and \<open>server_network\<close> to what they
      call of their network part, and a \<open>sublocale\<close> of each makes their vtables instances of
      \<open>player_contract\<close>; \<open>client_effects\<close> and \<open>server_effects\<close> are the case of a predicate that the
      network does not touch.
    \<^item> \<open>Player_Properties\<close>: seeking and its deferral, opening and closing, muting, the end of a
      stream, termination of the message loop. \<open>Seek_Refinement\<close>: the specification of seeking, a machine
      that coalesces requests, and that the player implements it. \<open>Net_Clocks\<close>: the references to network clocks.
      \<open>Player_Server_Properties\<close> and \<open>Player_Client_Properties\<close>: whole lives of the networked players,
      the heartbeat period. \<open>Network_Seek\<close>: the seek of a server player, its resuming after a pause, and
      what an ASYNC_DONE does to it. \<open>Following\<close>: what a
      received heartbeat does to a client. \<open>Convergence\<close>: a client over several updates, until it has
      the base time and the state of its server.
    \<^item> \<open>Net_Sockets\<close>: the references to sockets, addresses, contexts, sources and services, what every
      method of \<open>Client\<close> and \<open>Server\<close> does to them, and in the locales \<open>client_hook\<close> and \<open>server_hook\<close>
      what they rely on of \<open>onMessage\<close>. \<open>Net_Ownership\<close> interprets both on the networked players and
      accounts for these references over their whole lives.
    \<^item> \<open>Player_Soundness\<close>: the contract of GStreamer under which a player never runs into undefined
      behaviour or an endless loop, \<open>courteous\<close>, and the locale \<open>sound_hooks\<close> of what its hooks have to
      keep; \<open>Client_Soundness\<close> and \<open>Server_Soundness\<close> interpret it on the networked players. The server
      has one undefined behaviour left, the conversion of a seek distance.
    \<^item> \<open>Frame_Handoff\<close>: \<open>processSample\<close> and the second half of \<open>update\<close> as step relations, one shared
      access at a time, in every interleaving; mutual exclusion, order, refinement of a buffer with
      one place, wait-freedom, and that the steps add up to the methods of \<open>Player\<close>.
    \<^item> This theory: server and client end to end.

  Bounds. A loop on the bus or on a main context runs at most \<open>loop_bound\<close> rounds and
  then leaves the event \<open>Diverged\<close>, so a cut loop shows in the trace; \<open>bus_loop_terminates\<close> shows that
  the bound does not matter once the bus runs empty. \<open>Fault\<close> marks undefined behaviour: a null
  pointer read, a conversion out of range, a read past a buffer. Both count as ordinary events for
  the invariants, which hold whatever a trace contains; the theories of soundness show when there are
  none.

  Concurrency. The runs of \<open>player_op\<close> interleave whole callbacks of the streaming thread with calls
  of the user; \<open>Frame_Handoff\<close> justifies that for the members of the frame. \<open>mWidth\<close> and \<open>mHeight\<close>, which
  \<open>onPreroll\<close> writes without synchronisation, are only modelled in whole callbacks.

  Not modelled: the text of log messages beyond their constant part, the memory of errors and strings
  (their scope guards are listed in \<open>Internal\<close>, but the methods leave them out), the unused member
  \<open>mClockOffset\<close>, the build files and the example programs under \<open>tests/\<close>, which are programs on a
  graphics framework.
\<close>

section \<open>From the server player to the client player\<close>

lemma sent_heartbeat_packet: "sent (trace (snd (heartbeat_packet E s))) = sent (trace s)"
  by (simp add: heartbeat_packet_def getTime_def getVolume_def ask_def Let_def split: option.split)

lemma heartbeat_packet_frame:
  "ps_server (snd (heartbeat_packet E s)) = ps_server s"
  "pkt_mute (fst (heartbeat_packet E s)) = (if getMute s then 1 else 0)"
  "pkt_state (fst (heartbeat_packet E s)) = getState s"
  by (simp_all add: heartbeat_packet_def getTime_def getVolume_def getMute_def getState_def ask_def Let_def
      split: option.split)

lemma heartbeat_packet_base:
  assumes "mPipeline s = Some p"
  shows "\<exists>h. pkt_base (fst (heartbeat_packet E s)) = gst_element_get_base_time E (Clk (Get_base_time (Some p)) # h)"
  using assms by (simp add: heartbeat_packet_def getTime_def getVolume_def ask_def Let_def split: option.split)
    blast

text \<open>What a heartbeat puts on the wire.\<close>

lemma sent_dispatch:
  assumes "mPipeline s = Some p" and "distinct (map fst (mEndpoints (ps_server s)))"
    and "\<And>h xs. mset (unordered E h xs) = mset xs"
  shows "sent (trace (dispatchHeartbeat E s)) =
    sent (trace s) + datagrams (serialize (fst (heartbeat_packet E s))) (mEndpoints (ps_server s))"
proof -
  let ?u = "snd (heartbeat_packet E s)"
  have "dispatchHeartbeat E s =
    broadcastToClients E player_server_class (serialize (fst (heartbeat_packet E s))) ?u"
    using assms(1) by (simp add: dispatchHeartbeat_def split_beta Let_def)
  then show ?thesis
    using broadcast_sent [of player_server_class ?u E "serialize (fst (heartbeat_packet E s))"] assms(2,3)
    by (simp add: sent_heartbeat_packet heartbeat_packet_frame(1))
qed

lemma datagrams_message: "(k, a, m) \<in># datagrams message eps \<Longrightarrow> m = message"
  by (auto simp: datagrams_def)

text \<open>C3: server and client end to end. Every datagram of a heartbeat goes to an endpoint the server has
  set up; and a client that receives one and runs on another base time makes, in one update, the
  server's base time its own: in READY by moving its pipeline there, on the network clock at its
  server's address and clock port, in any other state by asking for READY and keeping the base
  time for the update that finds it.\<close>

theorem server_base_time_reaches_client:
  assumes "mPipeline server = Some ps" and "distinct (map fst (mEndpoints (ps_server server)))"
    and "\<And>h xs. mset (unordered Es h xs) = mset xs"
    and "\<And>h. gst_element_get_base_time Es (Clk (Get_base_time (Some ps)) # h) = base"
    and "printable_packet (fst (heartbeat_packet Es server))" and "base \<noteq> 0"
    and "(sock, addr, msg) \<in># sent (trace (dispatchHeartbeat Es server)) - sent (trace server)"
    and "mPipeline client = Some p" and "isConnected (player_client_class E) client"
    and "mContext (pc_client client) = Some ctx" and "mReceiveSocket (pc_client client) = k"
    and "loop_bound E = Suc (Suc n)" and "a = Gio (Context_pending (Some ctx))"
    and "g_main_context_pending E (a # trace client)"
    and "g_main_context_iteration E (Gio (Context_iteration (Some ctx)) # a # trace client)"
    and "\<And>h. \<not> g_main_context_pending E (a # Gio (Socket_unref k) # h)"
    and "\<And>h. g_socket_receive E (Gio (Socket_receive k 1024) # h) = Some msg"
    and "\<And>h. gst_element_get_base_time E (Clk (Get_base_time (Some p)) # h) \<noteq> base"
    and "\<And>h. gst_net_client_clock_new E (clock_request client base # h) = Some c"
    and "t = client_onBeforeUpdate E client"
  shows "(\<exists>ep \<in> snd ` set (mEndpoints (ps_server server)). sock = mEndpointSocket ep \<and> addr = mEndpointAddress ep) \<and>
    (if mState client = GST_STATE_READY then
      mBaseTime t = 0 \<and> pc_mNetClock t = Some c \<and>
      (\<exists>h. trace t = [Clk (Set_base_time (Some p) base), Clk (Set_start_time (Some p)),
        Clk (Use_clock (Some p) (Some c)), Clk (Clock_set_timeout (Some c)),
        clock_request client base, Clk (Set_base_time (Some p) GST_CLOCK_TIME_NONE)] @ h)
    else mBaseTime t = base \<and>
      (\<exists>h. filter (\<lambda>e. \<not> is_log e) (trace t) = Gst (Set_state (Some p) GST_STATE_READY) # h))"
proof
  define pk where "pk = fst (heartbeat_packet Es server)"
  have d: "(sock, addr, msg) \<in># datagrams (serialize pk) (mEndpoints (ps_server server))"
    using assms(7) sent_dispatch [OF assms(1-3)] by (simp add: pk_def)
  then show "\<exists>ep \<in> snd ` set (mEndpoints (ps_server server)). sock = mEndpointSocket ep \<and> addr = mEndpointAddress ep"
    by (auto simp: datagrams_def)
  have sent_text: "msg = serialize pk" using d by (rule datagrams_message)
  have base: "pkt_base pk = base"
    using heartbeat_packet_base [OF assms(1), of Es] assms(4) by (auto simp: pk_def)
  have "printable_packet pk" using assms(5) by (simp add: pk_def)
  from update_new_base [OF this assms(8-16), of c t, unfolded base sent_text [symmetric]]
    assms(6,17-20)
  show "if mState client = GST_STATE_READY then
      mBaseTime t = 0 \<and> pc_mNetClock t = Some c \<and>
      (\<exists>h. trace t = [Clk (Set_base_time (Some p) base), Clk (Set_start_time (Some p)),
        Clk (Use_clock (Some p) (Some c)), Clk (Clock_set_timeout (Some c)),
        clock_request client base, Clk (Set_base_time (Some p) GST_CLOCK_TIME_NONE)] @ h)
    else mBaseTime t = base \<and>
      (\<exists>h. filter (\<lambda>e. \<not> is_log e) (trace t) = Gst (Set_state (Some p) GST_STATE_READY) # h)"
    by blast
qed

text \<open>A server that plays and knows one client, and the client that receives its heartbeat.\<close>

definition beating_server :: player_server where
  "beating_server = server_storage\<lparr>mPipeline := Some 1, mState := GST_STATE_PLAYING,
     ps_server := the_server listening_server\<rparr>"

lemma zero_seconds: "int_to_double 0 / GST_SECOND = 0"
  by (simp add: int_to_double_exact GST_SECOND_def zero_double_def to_double_def round_to_def
      DBL_OVERFLOW_def)

lemma beating_server_facts:
  "mPipeline beating_server = Some 1" "distinct (map fst (mEndpoints (ps_server beating_server)))"
  "fst (heartbeat_packet calm beating_server) = demo_packet" "mset (unordered calm h xs) = mset xs"
  "gst_element_get_base_time calm g = 1000000000"
  "printable_packet (fst (heartbeat_packet calm beating_server))"
proof -
  show "mPipeline beating_server = Some 1" "mset (unordered calm h xs) = mset xs"
    "gst_element_get_base_time calm g = 1000000000"
    by (simp_all add: beating_server_def)
  show "distinct (map fst (mEndpoints (ps_server beating_server)))"
    by (simp add: beating_server_def listening_server_def)
  show p: "fst (heartbeat_packet calm beating_server) = demo_packet"
    by (simp add: heartbeat_packet_def getTime_def getVolume_def getMute_def getState_def ask_def Let_def
        beating_server_def server_storage_def player.defs fresh_storage_def demo_packet_def zero_seconds)
  show "printable_packet (fst (heartbeat_packet calm beating_server))"
    by (simp add: p demo_printable)
qed

lemma beating_server_sends:
  "(Some 11, Some 12, serialize demo_packet) \<in>#
     sent (trace (dispatchHeartbeat calm beating_server)) - sent (trace beating_server)"
proof -
  have "sent (trace (dispatchHeartbeat calm beating_server)) =
    sent (trace beating_server) + datagrams (serialize demo_packet) (mEndpoints (ps_server beating_server))"
    using sent_dispatch [OF beating_server_facts(1,2,4)] by (simp add: beating_server_facts(3))
  then show ?thesis by (simp add: datagrams_def beating_server_def listening_server_def ready_def UdpEndpoint_def)
qed

theorem server_base_time_reaches_client_witness:
  "\<exists>t. t = client_onBeforeUpdate one_heartbeat following_client \<and> mBaseTime t = 0 \<and>
    pc_mNetClock t = Some 8 \<and>
    (\<exists>h. trace t = [Clk (Set_base_time (Some 1) 1000000000), Clk (Set_start_time (Some 1)),
        Clk (Use_clock (Some 1) (Some 8)), Clk (Clock_set_timeout (Some 8)),
        clock_request following_client 1000000000, Clk (Set_base_time (Some 1) GST_CLOCK_TIME_NONE)] @ h)"
proof -
  have b: "gst_element_get_base_time one_heartbeat h \<noteq> 1000000000" "(1000000000 :: uint64) \<noteq> 0" for h
    by (simp_all add: one_heartbeat_def)
  from server_base_time_reaches_client [OF beating_server_facts(1,2,4,5,6) b(2) beating_server_sends
      following_client_simps(1) following_client_facts(1-3,5) HOL.refl following_client_facts(6-9) b(1)
      following_client_facts(12) HOL.refl]
  show ?thesis using following_client_facts(4) by auto
qed

end
